theory Spec2Isabelle
  imports Complex_Main "HOL-Library.FSet" "HOL-Library.While_Combinator"
begin

section \<open>Data model of \<open>src/main.py\<close>\<close>

text \<open>
  Tiles are Python strings, coordinates and directions are pairs of Python integers
  \<open>(y, x)\<close>, a compatibility is a triple \<open>(tile1, tile2, direction)\<close>.  The weights
  dictionary is an association list in insertion order, the order in which
  \<open>weights.items()\<close> enumerates it.  A cell of the coefficient matrix is a Python set,
  hence finite: a finite set of tiles.  The matrix is a list of rows.
\<close>

type_synonym Tile = string
type_synonym Coordinates = "int \<times> int"
type_synonym Direction = "int \<times> int"
type_synonym Compatibility = "Tile \<times> Tile \<times> Direction"
type_synonym Weights = "(Tile \<times> int) list"
type_synonym Coefficients = "Tile fset"
type_synonym CoefficientMatrix = "Coefficients list list"

definition UP :: Direction where "UP = (1, 0)"
definition DOWN :: Direction where "DOWN = (-1, 0)"
definition LEFT :: Direction where "LEFT = (0, -1)"
definition RIGHT :: Direction where "RIGHT = (0, 1)"
definition DIRS :: "Direction list" where "DIRS = [UP, DOWN, LEFT, RIGHT]"

text \<open>The exceptions the solver can raise, as values.\<close>

datatype error = IndexError | KeyError | ValueError | AssertionError | OverflowError

text \<open>
  Python list subscripts: an index \<open>i\<close> with \<open>0 \<le> i < n\<close> reads position \<open>i\<close>, an index
  with \<open>-n \<le> i < 0\<close> reads position \<open>n + i\<close>, any other index raises \<open>IndexError\<close>.
\<close>

definition list_index :: "nat \<Rightarrow> int \<Rightarrow> nat option" where
  "list_index n i =
     (if 0 \<le> i \<and> i < int n then Some (nat i)
      else if i < 0 \<and> - int n \<le> i then Some (nat (int n + i))
      else None)"

definition subscript :: "'a list \<Rightarrow> int \<Rightarrow> error + 'a" where
  "subscript xs i =
     (case list_index (length xs) i of None \<Rightarrow> Inl IndexError | Some k \<Rightarrow> Inr (xs ! k))"

definition store :: "'a list \<Rightarrow> int \<Rightarrow> 'a \<Rightarrow> error + 'a list" where
  "store xs i v =
     (case list_index (length xs) i of None \<Rightarrow> Inl IndexError | Some k \<Rightarrow> Inr (xs[k := v]))"

text \<open>\<open>range(n)\<close> for a Python integer \<open>n\<close>: empty when \<open>n \<le> 0\<close>.\<close>

definition range_list :: "int \<Rightarrow> int list" where
  "range_list n = map int [0..<nat n]"

subsection \<open>CompatibilityOracle\<close>

record CompatibilityOracle =
  data :: "Compatibility set"

definition check :: "CompatibilityOracle \<Rightarrow> Tile \<Rightarrow> Tile \<Rightarrow> Direction \<Rightarrow> bool" where
  "check orc tile1 tile2 direction = ((tile1, tile2, direction) \<in> data orc)"

subsection \<open>Wavefunction\<close>

record Wavefunction =
  coefficient_matrix :: CoefficientMatrix
  weights :: Weights

definition init_coefficient_matrix :: "int \<times> int \<Rightarrow> Tile list \<Rightarrow> CoefficientMatrix" where
  "init_coefficient_matrix sz tiles =
     replicate (nat (snd sz)) (replicate (nat (fst sz)) (fset_of_list tiles))"

definition mk :: "int \<times> int \<Rightarrow> Weights \<Rightarrow> Wavefunction" where
  "mk sz ws =
     \<lparr>coefficient_matrix = init_coefficient_matrix sz (map fst ws), weights = ws\<rparr>"

definition get :: "Wavefunction \<Rightarrow> Coordinates \<Rightarrow> error + Coefficients" where
  "get wfn co_ords =
     (case co_ords of (y, x) \<Rightarrow>
        (case subscript (coefficient_matrix wfn) y of
           Inl e \<Rightarrow> Inl e
         | Inr row \<Rightarrow> subscript row x))"

text \<open>
  The assignment \<open>self.coefficient_matrix[y][x] = v\<close>: the row is read, its position \<open>x\<close>
  is overwritten in place.
\<close>

definition set_item :: "Wavefunction \<Rightarrow> Coordinates \<Rightarrow> Coefficients \<Rightarrow> error + Wavefunction" where
  "set_item wfn co_ords v =
     (case co_ords of (y, x) \<Rightarrow>
        (case subscript (coefficient_matrix wfn) y of
           Inl e \<Rightarrow> Inl e
         | Inr row \<Rightarrow>
             (case store row x v of
                Inl e \<Rightarrow> Inl e
              | Inr row' \<Rightarrow>
                  (case store (coefficient_matrix wfn) y row' of
                     Inl e \<Rightarrow> Inl e
                   | Inr cm' \<Rightarrow> Inr (wfn\<lparr>coefficient_matrix := cm'\<rparr>)))))"

definition get_collapsed :: "Wavefunction \<Rightarrow> Coordinates \<Rightarrow> error + Tile" where
  "get_collapsed wfn co_ords =
     (case get wfn co_ords of
        Inl e \<Rightarrow> Inl e
      | Inr options \<Rightarrow>
          if fcard options = 1 then Inr (fthe_elem options) else Inl AssertionError)"

text \<open>Running a list of fallible computations in order, stopping at the first error.\<close>

fun collect :: "(error + 'a) list \<Rightarrow> error + 'a list" where
  "collect [] = Inr []"
| "collect (c # cs) =
     (case c of
        Inl e \<Rightarrow> Inl e
      | Inr v \<Rightarrow> (case collect cs of Inl e \<Rightarrow> Inl e | Inr vs \<Rightarrow> Inr (v # vs)))"

definition get_all_collapsed :: "Wavefunction \<Rightarrow> error + Tile list list" where
  "get_all_collapsed wfn =
     (let height = int (length (coefficient_matrix wfn)) in
      case subscript (coefficient_matrix wfn) 0 of
        Inl e \<Rightarrow> Inl e
      | Inr row0 \<Rightarrow>
          (let width = int (length row0) in
           collect (map (\<lambda>y. collect (map (\<lambda>x. get_collapsed wfn (y, x)) (range_list width)))
                        (range_list height))))"

definition is_fully_collapsed :: "Wavefunction \<Rightarrow> bool" where
  "is_fully_collapsed wfn =
     list_all (\<lambda>row. list_all (\<lambda>sq. \<not> fcard sq > 1) row) (coefficient_matrix wfn)"

text \<open>
  \<open>constrain\<close> is \<open>self.coefficient_matrix[y][x].remove(forbidden_tile)\<close>: the two
  subscripts can raise \<open>IndexError\<close>, and \<open>set.remove\<close> raises \<open>KeyError\<close> when the tile
  is not in the set.
\<close>

definition constrain :: "Wavefunction \<Rightarrow> Coordinates \<Rightarrow> Tile \<Rightarrow> error + Wavefunction" where
  "constrain wfn co_ords forbidden_tile =
     (case get wfn co_ords of
        Inl e \<Rightarrow> Inl e
      | Inr options \<Rightarrow>
          if forbidden_tile |\<in>| options
          then set_item wfn co_ords (options |-| {|forbidden_tile|})
          else Inl KeyError)"

subsection \<open>Grid directions\<close>

definition valid_dirs :: "Coordinates \<Rightarrow> int \<times> int \<Rightarrow> Direction list" where
  "valid_dirs cur_co_ords matrix_size =
     (case cur_co_ords of (y, x) \<Rightarrow>
      case matrix_size of (width, height) \<Rightarrow>
        (if y < height - 1 then [UP] else []) @
        (if y > 0 then [DOWN] else []) @
        (if x > 0 then [LEFT] else []) @
        (if x < width - 1 then [RIGHT] else []))"

subsection \<open>Random draws\<close>

text \<open>
  \<open>random.random()\<close> reads the global generator.  The model threads the sequence of
  its future results through the calls: \<open>r 0\<close> is the next draw, \<open>advance r\<close> the
  sequence after it.  A draw is a real number, as every double is.
\<close>

type_synonym rng = "nat \<Rightarrow> real"

definition advance :: "rng \<Rightarrow> rng" where
  "advance r = (\<lambda>n. r (Suc n))"

subsection \<open>Wavefunction: entropy and collapse\<close>

text \<open>
  An operation on a float and an \<open>int\<close> converts the \<open>int\<close> to a double first.  An
  \<open>int\<close> converts when its magnitude is below \<open>2 ^ 1024 - 2 ^ 970\<close>, the least
  magnitude that rounds to \<open>2 ^ 1024\<close>; the conversion of any other \<open>int\<close> raises
  \<open>OverflowError\<close>.
\<close>

definition double_range :: "int \<Rightarrow> bool" where
  "double_range n = (\<bar>n\<bar> < 2 ^ 1024 - 2 ^ 970)"

text \<open>
  \<open>shannon_entropy\<close> looks the weight of every possible tile up (\<open>KeyError\<close> when a tile
  has none), takes its logarithm (\<open>ValueError\<close> when the weight is not positive) and
  multiplies the weight by it (\<open>OverflowError\<close> when the weight does not convert to a
  double), then takes the logarithm of the sum (\<open>ValueError\<close> when the sum is not
  positive, as for an empty cell) and divides by the sum (\<open>OverflowError\<close> when the sum
  does not convert).  The loop runs over a set; when the tiles of a cell raise different
  errors the model reports \<open>KeyError\<close> before \<open>ValueError\<close> before
  \<open>OverflowError\<close>.  The entropy itself is computed in the real numbers, without the
  rounding of the doubles.
\<close>

definition shannon_entropy :: "Wavefunction \<Rightarrow> Coordinates \<Rightarrow> error + real" where
  "shannon_entropy wfn co_ords =
     (case get wfn co_ords of
        Inl e \<Rightarrow> Inl e
      | Inr options \<Rightarrow>
          if \<exists>option |\<in>| options. map_of (weights wfn) option = None then Inl KeyError
          else if \<exists>option |\<in>| options. the (map_of (weights wfn) option) \<le> 0
          then Inl ValueError
          else if \<exists>option |\<in>| options. \<not> double_range (the (map_of (weights wfn) option))
          then Inl OverflowError
          else
            (let sum_of_weights = (\<Sum>option \<in> fset options. the (map_of (weights wfn) option));
                 sum_of_weight_log_weights =
                   (\<Sum>option \<in> fset options.
                      real_of_int (the (map_of (weights wfn) option)) *
                      ln (real_of_int (the (map_of (weights wfn) option))))
             in if sum_of_weights \<le> 0 then Inl ValueError
                else if \<not> double_range sum_of_weights then Inl OverflowError
                else Inr (ln (real_of_int sum_of_weights) -
                          sum_of_weight_log_weights / real_of_int sum_of_weights)))"

text \<open>
  The float arithmetic of \<open>collapse\<close>.  The method multiplies the draw by an
  \<open>int\<close> (line 163), subtracts an \<open>int\<close> from a float (line 167) and tests a float
  against zero (line 168).  Both operations convert the \<open>int\<close> to a double first, which
  raises \<open>OverflowError\<close> when the \<open>int\<close> is out of the range of the doubles, and
  both round their result.  The three operations are a parameter of the model of
  \<open>collapse\<close>: \<open>'f\<close> stands for the floats, \<open>mul_int u n\<close> for \<open>u * n\<close>,
  \<open>sub_int f n\<close> for \<open>f - n\<close> and \<open>below_zero f\<close> for \<open>f < 0\<close>.
\<close>

record 'f arithmetic =
  mul_int :: "real \<Rightarrow> int \<Rightarrow> error + 'f"
  sub_int :: "'f \<Rightarrow> int \<Rightarrow> error + 'f"
  below_zero :: "'f \<Rightarrow> bool"

text \<open>
  The selection loop of \<open>collapse\<close>: walk the (tile, weight) pairs, subtract each weight
  from the draw, and stop at the first pair that makes the remainder negative; when the
  loop runs out the preset choice stays.
\<close>

fun pick :: "'f arithmetic \<Rightarrow> (Tile \<times> int) list \<Rightarrow> 'f \<Rightarrow> Tile \<Rightarrow> error + Tile" where
  "pick ar [] rand_weight chosen = Inr chosen"
| "pick ar ((tile, weight) # rest) rand_weight chosen =
     (case sub_int ar rand_weight weight of
        Inl e \<Rightarrow> Inl e
      | Inr rand_weight' \<Rightarrow>
          if below_zero ar rand_weight' then Inr tile
          else pick ar rest rand_weight' chosen)"

text \<open>
  \<open>collapse_in ar wfn co_ords u\<close> is \<open>collapse\<close> in the arithmetic \<open>ar\<close>, where \<open>u\<close>
  is the result of the call of \<open>random.random()\<close>.
\<close>

definition collapse_in ::
  "'f arithmetic \<Rightarrow> Wavefunction \<Rightarrow> Coordinates \<Rightarrow> real \<Rightarrow> error + Wavefunction" where
  "collapse_in ar wfn co_ords u =
     (case get wfn co_ords of
        Inl e \<Rightarrow> Inl e
      | Inr options \<Rightarrow>
          (let filtered_tiles_with_weights =
                 filter (\<lambda>(tile, weight). tile |\<in>| options) (weights wfn);
               total_weights = sum_list (map snd filtered_tiles_with_weights)
           in case mul_int ar u total_weights of
                Inl e \<Rightarrow> Inl e
              | Inr rand_weight \<Rightarrow>
                  (case filtered_tiles_with_weights of
                     [] \<Rightarrow> Inl IndexError
                   | first # _ \<Rightarrow>
                       (case pick ar filtered_tiles_with_weights rand_weight (fst first) of
                          Inl e \<Rightarrow> Inl e
                        | Inr chosen \<Rightarrow> set_item wfn co_ords {|chosen|}))))"

text \<open>
  The arithmetic in which the model of \<open>run\<close> calls \<open>collapse\<close>.  An \<open>int\<close> that
  does not convert to a double raises \<open>OverflowError\<close>.  The floats are idealised as
  real numbers: the product and the difference are the exact ones, without rounding.
\<close>

definition exact_arithmetic :: "real arithmetic" where
  "exact_arithmetic =
     \<lparr>mul_int = (\<lambda>u n. if double_range n then Inr (u * real_of_int n) else Inl OverflowError),
      sub_int = (\<lambda>f n. if double_range n then Inr (f - real_of_int n) else Inl OverflowError),
      below_zero = (\<lambda>f. f < 0)\<rparr>"

definition collapse :: "Wavefunction \<Rightarrow> Coordinates \<Rightarrow> real \<Rightarrow> error + Wavefunction" where
  "collapse wfn co_ords u = collapse_in exact_arithmetic wfn co_ords u"

subsection \<open>Model\<close>

record Model =
  output_size :: "int \<times> int"
  compatibility_oracle :: CompatibilityOracle
  wavefunction :: Wavefunction

definition Model_init :: "int \<times> int \<Rightarrow> Weights \<Rightarrow> CompatibilityOracle \<Rightarrow> Model" where
  "Model_init sz ws orc =
     \<lparr>output_size = sz, compatibility_oracle = orc, wavefunction = mk sz ws\<rparr>"

text \<open>A \<open>for\<close> loop whose body can raise: the first error ends it.\<close>

fun for_each :: "('a \<Rightarrow> 's \<Rightarrow> error + 's) \<Rightarrow> 'a list \<Rightarrow> 's \<Rightarrow> error + 's" where
  "for_each body [] s = Inr s"
| "for_each body (x # xs) s =
     (case body x s of Inl e \<Rightarrow> Inl e | Inr s' \<Rightarrow> for_each body xs s')"

text \<open>
  The body of the scan of \<open>min_entropy_co_ords\<close>, on the loop state
  \<open>(min_entropy, min_entropy_co_ords, draws)\<close>.
\<close>

definition scan_cell ::
  "Wavefunction \<Rightarrow> Coordinates \<Rightarrow> real option \<times> Coordinates \<times> rng
     \<Rightarrow> error + (real option \<times> Coordinates \<times> rng)" where
  "scan_cell wfn co_ords st =
     (case st of (min_entropy, min_co_ords, r) \<Rightarrow>
        (case get wfn co_ords of
           Inl e \<Rightarrow> Inl e
         | Inr options \<Rightarrow>
             if fcard options = 1 then Inr st
             else
               (case shannon_entropy wfn co_ords of
                  Inl e \<Rightarrow> Inl e
                | Inr entropy \<Rightarrow>
                    (let entropy_plus_noise = entropy - r 0 / 1000 in
                     if (case min_entropy of None \<Rightarrow> True
                         | Some least \<Rightarrow> entropy_plus_noise < least)
                     then Inr (Some entropy_plus_noise, co_ords, advance r)
                     else Inr (min_entropy, min_co_ords, advance r)))))"

definition grid_co_ords :: "int \<times> int \<Rightarrow> Coordinates list" where
  "grid_co_ords sz =
     (case sz of (width, height) \<Rightarrow>
        concat (map (\<lambda>y. map (\<lambda>x. (y, x)) (range_list width)) (range_list height)))"

definition min_entropy_co_ords :: "Model \<Rightarrow> rng \<Rightarrow> error + (Coordinates \<times> rng)" where
  "min_entropy_co_ords m r =
     (case for_each (scan_cell (wavefunction m)) (grid_co_ords (output_size m))
             (None, (0, 0), r) of
        Inl e \<Rightarrow> Inl e
      | Inr (min_entropy, min_co_ords, r') \<Rightarrow> Inr (min_co_ords, r'))"

text \<open>
  The innermost loop of \<open>propagate\<close>, over an enumeration of the copy of the neighbour's
  set: a tile that is compatible with no tile of \<open>cur_possible_tiles\<close> is removed by
  \<open>constrain\<close> and the neighbour is pushed once for it.
\<close>

fun constrain_impossible ::
  "CompatibilityOracle \<Rightarrow> Coefficients \<Rightarrow> Direction \<Rightarrow> Coordinates \<Rightarrow> Tile list
     \<Rightarrow> Wavefunction \<times> Coordinates list \<Rightarrow> error + (Wavefunction \<times> Coordinates list)" where
  "constrain_impossible orc cur_possible_tiles d other_co_ords [] st = Inr st"
| "constrain_impossible orc cur_possible_tiles d other_co_ords (other_tile # rest) (wfn, stack) =
     (if \<exists>cur_tile |\<in>| cur_possible_tiles. check orc cur_tile other_tile d
      then constrain_impossible orc cur_possible_tiles d other_co_ords rest (wfn, stack)
      else
        (case constrain wfn other_co_ords other_tile of
           Inl e \<Rightarrow> Inl e
         | Inr wfn' \<Rightarrow>
             constrain_impossible orc cur_possible_tiles d other_co_ords rest
               (wfn', stack @ [other_co_ords])))"

text \<open>
  One neighbour of the current location in \<open>propagate\<close>.  Python enumerates the copy of
  the neighbour's set in an order of its own.  The test of a tile reads
  \<open>cur_possible_tiles\<close> only, which the loop does not change (the neighbour is another
  cell), so the outcome is the same for every order: the neighbour keeps the tiles that
  pass and is pushed as many times as tiles were removed.  \<open>propagate_dir\<close> is that
  outcome; lemma \<open>propagate_dir_inner_loop\<close> shows that \<open>constrain_impossible\<close> computes
  it on every enumeration of the set.
\<close>

definition propagate_dir ::
  "CompatibilityOracle \<Rightarrow> Coordinates \<Rightarrow> Coefficients \<Rightarrow> Direction
     \<Rightarrow> Wavefunction \<times> Coordinates list \<Rightarrow> error + (Wavefunction \<times> Coordinates list)" where
  "propagate_dir orc cur_co_ords cur_possible_tiles d st =
     (case st of (wfn, stack) \<Rightarrow>
        (let other_co_ords = (fst cur_co_ords + fst d, snd cur_co_ords + snd d) in
         case get wfn other_co_ords of
           Inl e \<Rightarrow> Inl e
         | Inr other_tiles \<Rightarrow>
             (let impossible =
                    ffilter (\<lambda>other_tile.
                       \<not> (\<exists>cur_tile |\<in>| cur_possible_tiles.
                            check orc cur_tile other_tile d)) other_tiles
              in case set_item wfn other_co_ords (other_tiles |-| impossible) of
                   Inl e \<Rightarrow> Inl e
                 | Inr wfn' \<Rightarrow>
                     Inr (wfn', stack @ replicate (fcard impossible) other_co_ords))))"

text \<open>One turn of the \<open>while\<close> loop of \<open>propagate\<close>: pop, then visit the neighbours.\<close>

definition propagate_step ::
  "int \<times> int \<Rightarrow> CompatibilityOracle \<Rightarrow> Wavefunction \<times> Coordinates list
     \<Rightarrow> error + (Wavefunction \<times> Coordinates list)" where
  "propagate_step sz orc st =
     (case st of (wfn, stack) \<Rightarrow>
        (let cur_co_ords = last stack in
         case get wfn cur_co_ords of
           Inl e \<Rightarrow> Inl e
         | Inr cur_possible_tiles \<Rightarrow>
             for_each (propagate_dir orc cur_co_ords cur_possible_tiles)
               (valid_dirs cur_co_ords sz) (wfn, butlast stack)))"

definition stack_nonempty :: "error + (Wavefunction \<times> Coordinates list) \<Rightarrow> bool" where
  "stack_nonempty s = (case s of Inl e \<Rightarrow> False | Inr (wfn, stack) \<Rightarrow> stack \<noteq> [])"

definition loop_body ::
  "int \<times> int \<Rightarrow> CompatibilityOracle \<Rightarrow> error + (Wavefunction \<times> Coordinates list)
     \<Rightarrow> error + (Wavefunction \<times> Coordinates list)" where
  "loop_body sz orc s =
     (case s of Inl e \<Rightarrow> Inl e | Inr st \<Rightarrow> propagate_step sz orc st)"

text \<open>
  \<open>propagate\<close>: the result is \<open>None\<close> when the loop never ends, \<open>Some (Inl e)\<close> when it
  raises \<open>e\<close>, and \<open>Some (Inr m')\<close> when it returns with the model changed to \<open>m'\<close>.
\<close>

definition propagate :: "Model \<Rightarrow> Coordinates \<Rightarrow> (error + Model) option" where
  "propagate m co_ords =
     (case while_option stack_nonempty
             (loop_body (output_size m) (compatibility_oracle m))
             (Inr (wavefunction m, [co_ords])) of
        None \<Rightarrow> None
      | Some (Inl e) \<Rightarrow> Some (Inl e)
      | Some (Inr (wfn', stack')) \<Rightarrow> Some (Inr (m\<lparr>wavefunction := wfn'\<rparr>)))"

definition iterate :: "Model \<Rightarrow> rng \<Rightarrow> (error + Model \<times> rng) option" where
  "iterate m r =
     (case min_entropy_co_ords m r of
        Inl e \<Rightarrow> Some (Inl e)
      | Inr (co_ords, r1) \<Rightarrow>
          (case collapse (wavefunction m) co_ords (r1 0) of
             Inl e \<Rightarrow> Some (Inl e)
           | Inr wfn' \<Rightarrow>
               (case propagate (m\<lparr>wavefunction := wfn'\<rparr>) co_ords of
                  None \<Rightarrow> None
                | Some (Inl e) \<Rightarrow> Some (Inl e)
                | Some (Inr m') \<Rightarrow> Some (Inr (m', advance r1)))))"

text \<open>
  The loop of \<open>run\<close> with a bound on the number of calls of \<open>iterate\<close>: \<open>None\<close> when
  the bound is reached before the wavefunction is fully collapsed (or \<open>propagate\<close> does
  not return).
\<close>

fun run_loop :: "nat \<Rightarrow> Model \<Rightarrow> rng \<Rightarrow> (error + Model \<times> rng) option" where
  "run_loop 0 m r = (if is_fully_collapsed (wavefunction m) then Some (Inr (m, r)) else None)"
| "run_loop (Suc fuel) m r =
     (if is_fully_collapsed (wavefunction m) then Some (Inr (m, r))
      else
        (case iterate m r of
           None \<Rightarrow> None
         | Some (Inl e) \<Rightarrow> Some (Inl e)
         | Some (Inr (m', r')) \<Rightarrow> run_loop fuel m' r'))"

definition run :: "nat \<Rightarrow> Model \<Rightarrow> rng \<Rightarrow> (error + Tile list list) option" where
  "run fuel m r =
     (case run_loop fuel m r of
        None \<Rightarrow> None
      | Some (Inl e) \<Rightarrow> Some (Inl e)
      | Some (Inr (m', r')) \<Rightarrow> Some (get_all_collapsed (wavefunction m')))"

section \<open>Notions used to state the properties\<close>

text \<open>
  The list positions \<open>(k, j)\<close> that the subscripts \<open>[y][x]\<close> denote in a matrix, if any.
\<close>

definition locate :: "CoefficientMatrix \<Rightarrow> Coordinates \<Rightarrow> (nat \<times> nat) option" where
  "locate cm co_ords =
     (case co_ords of (y, x) \<Rightarrow>
        (case list_index (length cm) y of
           None \<Rightarrow> None
         | Some k \<Rightarrow>
             (case list_index (length (cm ! k)) x of
                None \<Rightarrow> None
              | Some j \<Rightarrow> Some (k, j))))"

text \<open>A matrix of \<open>height\<close> rows of \<open>width\<close> cells, for \<open>sz = (width, height)\<close>.\<close>

definition has_shape :: "int \<times> int \<Rightarrow> CoefficientMatrix \<Rightarrow> bool" where
  "has_shape sz cm =
     (length cm = nat (snd sz) \<and> list_all (\<lambda>row. length row = nat (fst sz)) cm)"

definition in_grid :: "int \<times> int \<Rightarrow> Coordinates \<Rightarrow> bool" where
  "in_grid sz co_ords =
     (0 \<le> fst co_ords \<and> fst co_ords < snd sz \<and> 0 \<le> snd co_ords \<and> snd co_ords < fst sz)"

definition cell :: "CoefficientMatrix \<Rightarrow> Coordinates \<Rightarrow> Coefficients" where
  "cell cm co_ords = cm ! nat (fst co_ords) ! nat (snd co_ords)"

definition neighbour :: "Coordinates \<Rightarrow> Direction \<Rightarrow> Coordinates" where
  "neighbour co_ords d = (fst co_ords + fst d, snd co_ords + snd d)"

text \<open>Every cell of \<open>cm'\<close> is a subset of the cell of \<open>cm\<close> at the same place.\<close>

definition shrinks :: "CoefficientMatrix \<Rightarrow> CoefficientMatrix \<Rightarrow> bool" where
  "shrinks cm' cm = list_all2 (list_all2 (\<lambda>sq' sq. sq' |\<subseteq>| sq)) cm' cm"

definition sizes_le :: "CoefficientMatrix \<Rightarrow> CoefficientMatrix \<Rightarrow> bool" where
  "sizes_le cm' cm = list_all2 (list_all2 (\<lambda>sq' sq. fcard sq' \<le> fcard sq)) cm' cm"

text \<open>Every tile of every cell is a key of the weights dictionary.\<close>

definition within_universe :: "Wavefunction \<Rightarrow> bool" where
  "within_universe wfn =
     list_all (list_all (\<lambda>sq. sq |\<subseteq>| fset_of_list (map fst (weights wfn))))
       (coefficient_matrix wfn)"

text \<open>The wavefunctions that a sequence of successful \<open>collapse\<close> and \<open>constrain\<close> calls
  leads to.\<close>

inductive ops_reach :: "Wavefunction \<Rightarrow> Wavefunction \<Rightarrow> bool" where
  ops_none: "ops_reach wfn wfn"
| ops_collapse:
    "ops_reach wfn wfn1 \<Longrightarrow> collapse wfn1 co_ords u = Inr wfn2 \<Longrightarrow> ops_reach wfn wfn2"
| ops_constrain:
    "ops_reach wfn wfn1 \<Longrightarrow> constrain wfn1 co_ords tile = Inr wfn2 \<Longrightarrow> ops_reach wfn wfn2"

text \<open>The sum of the sizes of all cells, and the measure of the loop of \<open>propagate\<close>.\<close>

definition total :: "CoefficientMatrix \<Rightarrow> nat" where
  "total cm = sum_list (map (\<lambda>row. sum_list (map fcard row)) cm)"

definition loop_measure :: "error + (Wavefunction \<times> Coordinates list) \<Rightarrow> nat" where
  "loop_measure s =
     (case s of
        Inl e \<Rightarrow> 0
      | Inr (wfn, stack) \<Rightarrow> Suc (2 * total (coefficient_matrix wfn) + length stack))"

text \<open>The number of cells that hold more than one tile.\<close>

definition uncollapsed :: "CoefficientMatrix \<Rightarrow> nat" where
  "uncollapsed cm =
     sum_list (map (\<lambda>row. sum_list (map (\<lambda>sq. if 1 < fcard sq then 1 else 0) row)) cm)"

text \<open>
  The state of the scan of \<open>min_entropy_co_ords\<close> after the locations \<open>V\<close>: either no
  entropy was recorded yet, the answer is still the preset \<open>(0, 0)\<close> and every location
  seen holds exactly one tile; or the answer is a location seen that holds a non-empty
  set of other than one tile.
\<close>

definition scan_inv ::
  "Wavefunction \<Rightarrow> Coordinates set \<Rightarrow> real option \<times> Coordinates \<times> rng \<Rightarrow> bool" where
  "scan_inv wfn V st =
     (case st of (min_entropy, min_co_ords, r) \<Rightarrow>
        (case min_entropy of
           None \<Rightarrow>
             min_co_ords = (0, 0) \<and>
             (\<forall>c \<in> V. \<exists>options. get wfn c = Inr options \<and> fcard options = 1)
         | Some least \<Rightarrow>
             min_co_ords \<in> V \<and>
             (\<exists>options. get wfn min_co_ords = Inr options \<and> fcard options \<noteq> 1 \<and>
                options \<noteq> {||})))"

text \<open>
  A cell supports its neighbours when every tile of every neighbour is compatible, in the
  neighbour's direction, with some tile of the cell.  A state of \<open>propagate\<close> is settled
  when every cell of at most one tile that is not on the stack supports its neighbours.
\<close>

definition supports :: "int \<times> int \<Rightarrow> CompatibilityOracle \<Rightarrow> CoefficientMatrix \<Rightarrow> Coordinates \<Rightarrow> bool" where
  "supports sz orc cm co_ords =
     (\<forall>d \<in> set (valid_dirs co_ords sz).
        \<forall>other_tile |\<in>| cell cm (neighbour co_ords d).
          \<exists>cur_tile |\<in>| cell cm co_ords. check orc cur_tile other_tile d)"

definition settled ::
  "int \<times> int \<Rightarrow> CompatibilityOracle \<Rightarrow> CoefficientMatrix \<Rightarrow> Coordinates list \<Rightarrow> bool" where
  "settled sz orc cm stack =
     (\<forall>co_ords \<in> set (grid_co_ords sz).
        co_ords \<notin> set stack \<longrightarrow> fcard (cell cm co_ords) \<le> 1 \<longrightarrow> supports sz orc cm co_ords)"

text \<open>
  The state of the loop over the directions of the location \<open>cur\<close> that \<open>propagate\<close>
  has popped, after the directions \<open>D\<close>: the matrix keeps its shape, the stack holds
  locations of the grid, the cell at \<open>cur\<close> still holds \<open>tiles\<close> and, when \<open>b\<close> is
  set, every other cell of at most one tile that is off the stack supports its neighbours
  and \<open>cur\<close> supports its neighbours in the directions \<open>D\<close>.  \<open>prop_inv\<close> is the
  invariant of the \<open>while\<close> loop: no error, and the state is settled when \<open>b\<close> is set.
\<close>

definition visit_inv ::
  "int \<times> int \<Rightarrow> CompatibilityOracle \<Rightarrow> Coordinates \<Rightarrow> Coefficients \<Rightarrow> Wavefunction
     \<Rightarrow> bool \<Rightarrow> Direction set \<Rightarrow> Wavefunction \<times> Coordinates list \<Rightarrow> bool" where
  "visit_inv sz orc cur tiles wfn0 b D st =
     (case st of (wfn, stack) \<Rightarrow>
        has_shape sz (coefficient_matrix wfn) \<and> weights wfn = weights wfn0 \<and>
        (\<forall>c \<in> set stack. in_grid sz c) \<and>
        cell (coefficient_matrix wfn) cur = tiles \<and>
        D \<subseteq> set (valid_dirs cur sz) \<and>
        (b \<longrightarrow>
           (\<forall>c. in_grid sz c \<longrightarrow> c \<noteq> cur \<longrightarrow> c \<notin> set stack \<longrightarrow>
              fcard (cell (coefficient_matrix wfn) c) \<le> 1 \<longrightarrow>
              supports sz orc (coefficient_matrix wfn) c) \<and>
           (\<forall>d \<in> D. \<forall>t |\<in>| cell (coefficient_matrix wfn) (neighbour cur d).
              \<exists>a |\<in>| tiles. check orc a t d)))"

definition prop_inv ::
  "int \<times> int \<Rightarrow> CompatibilityOracle \<Rightarrow> Wavefunction \<Rightarrow> bool
     \<Rightarrow> error + (Wavefunction \<times> Coordinates list) \<Rightarrow> bool" where
  "prop_inv sz orc wfn0 b s =
     (case s of
        Inl e \<Rightarrow> False
      | Inr (wfn, stack) \<Rightarrow>
          has_shape sz (coefficient_matrix wfn) \<and> weights wfn = weights wfn0 \<and>
          (\<forall>c \<in> set stack. in_grid sz c) \<and>
          (b \<longrightarrow> settled sz orc (coefficient_matrix wfn) stack))"

text \<open>
  The scenario of the specification: one row of two columns, the tiles \<open>X\<close> and \<open>Y\<close>
  of weight 1, and the relation that allows \<open>Y\<close> to the right of \<open>X\<close> and \<open>X\<close> to
  the left of \<open>Y\<close>.  \<open>xy_cells a b\<close> is the wavefunction of the scenario whose two cells
  hold \<open>a\<close> and \<open>b\<close>.
\<close>

definition xy_weights :: Weights where
  "xy_weights = [(''X'', 1), (''Y'', 1)]"

definition xy_oracle :: CompatibilityOracle where
  "xy_oracle = \<lparr>data = {(''X'', ''Y'', RIGHT), (''Y'', ''X'', LEFT)}\<rparr>"

definition xy_model :: Model where
  "xy_model = Model_init (2, 1) xy_weights xy_oracle"

definition xy_cells :: "Coefficients \<Rightarrow> Coefficients \<Rightarrow> Wavefunction" where
  "xy_cells a b = \<lparr>coefficient_matrix = [[a, b]], weights = xy_weights\<rparr>"

text \<open>
  The sequence of draws in which \<open>random.random()\<close> always returns \<open>u\<close>.
\<close>

definition constant_draws :: "real \<Rightarrow> rng" where
  "constant_draws u = (\<lambda>n. u)"

text \<open>
  In the words of the specification of \<open>is_fully_collapsed\<close>: every cell's possibility
  set has exactly one element.
\<close>

definition every_cell_has_one_tile :: "Wavefunction \<Rightarrow> bool" where
  "every_cell_has_one_tile wfn =
     list_all (list_all (\<lambda>sq. fcard sq = 1)) (coefficient_matrix wfn)"

text \<open>
  A model with one tile only, on the grid and the relation of the scenario.
\<close>

definition single_tile_model :: Model where
  "single_tile_model = Model_init (2, 1) [(''X'', 1)] xy_oracle"

text \<open>
  The sets of tiles for which \<open>shannon_entropy\<close> computes an entropy: the set is not
  empty, every tile has a positive weight that converts to a double, and the sum of the
  weights converts to a double.
\<close>

definition entropy_defined :: "Wavefunction \<Rightarrow> Coefficients \<Rightarrow> bool" where
  "entropy_defined wfn options =
     (options \<noteq> {||} \<and>
      (\<forall>option |\<in>| options.
         case map_of (weights wfn) option of
           None \<Rightarrow> False
         | Some weight \<Rightarrow> 0 < weight \<and> double_range weight) \<and>
      double_range (\<Sum>option \<in> fset options. the (map_of (weights wfn) option)))"







section \<open>Subscripts and cells\<close>

lemma list_index_less: "list_index n i = Some k \<Longrightarrow> k < n"
  by (auto simp: list_index_def split: if_splits)

lemma list_index_plain: "0 \<le> i \<Longrightarrow> i < int n \<Longrightarrow> list_index n i = Some (nat i)"
  by (simp add: list_index_def)

lemma locate_less:
  "locate cm co = Some (k, j) \<Longrightarrow> k < length cm \<and> j < length (cm ! k)"
  by (auto simp: locate_def split: prod.splits option.splits dest: list_index_less)

lemma get_locate:
  "get wfn co =
     (case locate (coefficient_matrix wfn) co of
        None \<Rightarrow> Inl IndexError
      | Some (k, j) \<Rightarrow> Inr (coefficient_matrix wfn ! k ! j))"
  by (simp add: get_def locate_def subscript_def split: prod.splits option.splits)

lemma set_item_locate:
  "set_item wfn co v =
     (case locate (coefficient_matrix wfn) co of
        None \<Rightarrow> Inl IndexError
      | Some (k, j) \<Rightarrow>
          Inr (wfn\<lparr>coefficient_matrix :=
                 (coefficient_matrix wfn)[k := (coefficient_matrix wfn ! k)[j := v]]\<rparr>))"
  by (simp add: set_item_def locate_def subscript_def store_def split: prod.splits option.splits)

lemma length_nth_update_cell:
  "length (cm[k := (cm ! k)[j := v]] ! i) = length (cm ! i)"
  by (cases "k < length cm") (simp_all add: nth_list_update list_update_beyond)

lemma locate_update:
  "locate (cm[k := (cm ! k)[j := v]]) co = locate cm co"
  by (simp add: locate_def length_nth_update_cell split: prod.splits option.splits)

lemma has_shape_row:
  "has_shape sz cm \<Longrightarrow> k < length cm \<Longrightarrow> length (cm ! k) = nat (fst sz)"
  by (simp add: has_shape_def list_all_length)

lemma locate_in_grid:
  assumes "has_shape sz cm" "in_grid sz co"
  shows "locate cm co = Some (nat (fst co), nat (snd co))"
proof -
  obtain y x where co: "co = (y, x)" by (cases co)
  from assms co have y: "0 \<le> y" "y < int (length cm)" and x: "0 \<le> x" "x < fst sz"
    by (auto simp: has_shape_def in_grid_def)
  from y have "nat y < length cm" by simp
  with assms(1) have "length (cm ! nat y) = nat (fst sz)" by (rule has_shape_row)
  with x have "x < int (length (cm ! nat y))" by simp
  with x y co show ?thesis by (simp add: locate_def list_index_plain)
qed

section \<open>Matrices that shrink\<close>

lemma shrinks_refl: "shrinks cm cm"
  by (simp add: shrinks_def list_all2_same)

lemma shrinks_trans: "shrinks c b \<Longrightarrow> shrinks b a \<Longrightarrow> shrinks c a"
proof -
  have row: "list_all2 (\<lambda>sq' sq. sq' |\<subseteq>| sq) r3 r1"
    if "list_all2 (\<lambda>sq' sq. sq' |\<subseteq>| sq) r3 r2" "list_all2 (\<lambda>sq' sq. sq' |\<subseteq>| sq) r2 r1"
    for r1 r2 r3 :: "Coefficients list"
    using that(1) that(2) by (rule list_all2_trans[rotated]) auto
  assume "shrinks c b" "shrinks b a"
  then show ?thesis
    unfolding shrinks_def by (rule list_all2_trans[rotated]) (rule row)
qed

lemma shrinks_update:
  assumes "k < length cm" "j < length (cm ! k)" "v |\<subseteq>| cm ! k ! j"
  shows "shrinks (cm[k := (cm ! k)[j := v]]) cm"
  using assms
  by (auto simp: shrinks_def list_all2_conv_all_nth nth_list_update)

lemma set_item_Inr:
  "set_item wfn co v = Inr wfn' \<Longrightarrow>
     \<exists>k j. locate (coefficient_matrix wfn) co = Some (k, j) \<and>
       wfn' = wfn\<lparr>coefficient_matrix :=
                 (coefficient_matrix wfn)[k := (coefficient_matrix wfn ! k)[j := v]]\<rparr>"
  by (auto simp: set_item_locate split: option.splits)

lemma get_Inr:
  "get wfn co = Inr s \<Longrightarrow>
     \<exists>k j. locate (coefficient_matrix wfn) co = Some (k, j) \<and> s = coefficient_matrix wfn ! k ! j"
  by (auto simp: get_locate split: option.splits)

lemma set_item_shrinks:
  assumes "get wfn co = Inr s" "v |\<subseteq>| s" "set_item wfn co v = Inr wfn'"
  shows "shrinks (coefficient_matrix wfn') (coefficient_matrix wfn)"
proof -
  from assms(1) obtain k j where
    loc: "locate (coefficient_matrix wfn) co = Some (k, j)" and s: "s = coefficient_matrix wfn ! k ! j"
    by (auto dest: get_Inr)
  from assms(3) loc have
    "coefficient_matrix wfn' = (coefficient_matrix wfn)[k := (coefficient_matrix wfn ! k)[j := v]]"
    by (auto simp: set_item_locate)
  with locate_less[OF loc] assms(2) s show ?thesis
    by (simp add: shrinks_update)
qed

subsection \<open>The selection loop of \<open>collapse\<close>\<close>

lemma pick_member: "pick ar fl rw c = Inr t \<Longrightarrow> t \<in> insert c (fst ` set fl)"
  by (induction ar fl rw c rule: pick.induct) (auto split: sum.splits if_splits)








lemma set_item_get_same:
  assumes "set_item wfn co v = Inr wfn'"
  shows "get wfn' co = Inr v"
proof -
  from set_item_Inr[OF assms] obtain k j where
    loc: "locate (coefficient_matrix wfn) co = Some (k, j)" and
    w: "wfn' = wfn\<lparr>coefficient_matrix :=
                 (coefficient_matrix wfn)[k := (coefficient_matrix wfn ! k)[j := v]]\<rparr>"
    by blast
  from locate_less[OF loc] show ?thesis
    by (simp add: get_locate w locate_update loc)
qed

lemma set_item_get_other:
  assumes "set_item wfn co v = Inr wfn'"
    and "locate (coefficient_matrix wfn) co' \<noteq> locate (coefficient_matrix wfn) co"
  shows "get wfn' co' = get wfn co'"
proof -
  from set_item_Inr[OF assms(1)] obtain k j where
    loc: "locate (coefficient_matrix wfn) co = Some (k, j)" and
    w: "wfn' = wfn\<lparr>coefficient_matrix :=
                 (coefficient_matrix wfn)[k := (coefficient_matrix wfn ! k)[j := v]]\<rparr>"
    by blast
  show ?thesis
  proof (cases "locate (coefficient_matrix wfn) co'")
    case None
    then show ?thesis by (simp add: get_locate w locate_update)
  next
    case (Some p)
    obtain k' j' where p: "p = (k', j')" by (cases p)
    from Some p assms(2) loc have ne: "(k', j') \<noteq> (k, j)" by auto
    from Some p locate_less have "k' < length (coefficient_matrix wfn)" by blast
    with ne locate_less[OF loc] show ?thesis
      by (auto simp: get_locate w locate_update Some p nth_list_update)
  qed
qed

lemma set_item_succeeds:
  "get wfn co = Inr s \<Longrightarrow> \<exists>wfn'. set_item wfn co v = Inr wfn'"
  by (auto simp: get_locate set_item_locate split: option.splits)

lemma set_item_weights: "set_item wfn co v = Inr wfn' \<Longrightarrow> weights wfn' = weights wfn"
  by (auto dest: set_item_Inr)

lemma is_fully_collapsed_iff:
  "is_fully_collapsed wfn \<longleftrightarrow>
     (\<forall>row \<in> set (coefficient_matrix wfn). \<forall>sq \<in> set row. fcard sq \<le> 1)"
  by (auto simp: is_fully_collapsed_def list_all_iff not_less)

lemma collapse_in_Inr:
  assumes "collapse_in ar wfn co u = Inr wfn'"
  obtains options rand_weight chosen where "get wfn co = Inr options"
    "mul_int ar u (sum_list (map snd
       (filter (\<lambda>(tile, weight). tile |\<in>| options) (weights wfn)))) = Inr rand_weight"
    "filter (\<lambda>(tile, weight). tile |\<in>| options) (weights wfn) \<noteq> []"
    "pick ar (filter (\<lambda>(tile, weight). tile |\<in>| options) (weights wfn)) rand_weight
       (fst (hd (filter (\<lambda>(tile, weight). tile |\<in>| options) (weights wfn)))) = Inr chosen"
    "chosen |\<in>| options"
    "set_item wfn co {|chosen|} = Inr wfn'"
proof -
  from assms obtain options where g: "get wfn co = Inr options"
    by (auto simp: collapse_in_def split: sum.splits)
  let ?ftw = "filter (\<lambda>(tile, weight). tile |\<in>| options) (weights wfn)"
  from assms g obtain rand_weight where
    m: "mul_int ar u (sum_list (map snd ?ftw)) = Inr rand_weight"
    by (auto simp: collapse_in_def Let_def split: sum.splits)
  from assms g m have ne: "?ftw \<noteq> []"
    by (auto simp: collapse_in_def Let_def split: list.splits)
  then obtain first rest where fr: "?ftw = first # rest" by (cases ?ftw) auto
  from assms g m fr obtain chosen where
    p: "pick ar ?ftw rand_weight (fst (hd ?ftw)) = Inr chosen" and
    s: "set_item wfn co {|chosen|} = Inr wfn'"
    by (auto simp: collapse_in_def Let_def split: sum.splits)
  from pick_member[OF p] have "chosen \<in> insert (fst (hd ?ftw)) (fst ` set ?ftw)" .
  moreover from ne have "hd ?ftw \<in> set ?ftw" by (rule hd_in_set)
  ultimately have "chosen \<in> fst ` set ?ftw" by auto
  then have c: "chosen |\<in>| options" by auto
  show ?thesis by (rule that[OF g m ne p c s])
qed

lemma collapse_Inr:
  assumes "collapse wfn co u = Inr wfn'"
  obtains options chosen where "get wfn co = Inr options" "chosen |\<in>| options"
    "set_item wfn co {|chosen|} = Inr wfn'"
  using assms unfolding collapse_def by (rule collapse_in_Inr)

lemma collapse_shrinks:
  assumes "collapse wfn co u = Inr wfn'"
  shows "shrinks (coefficient_matrix wfn') (coefficient_matrix wfn)"
proof -
  from assms obtain options chosen where g: "get wfn co = Inr options"
    and c: "chosen |\<in>| options" and s: "set_item wfn co {|chosen|} = Inr wfn'"
    by (rule collapse_Inr)
  from c have "{|chosen|} |\<subseteq>| options" by simp
  with g show ?thesis using s by (rule set_item_shrinks)
qed

lemma constrain_shrinks:
  assumes "constrain wfn co t = Inr wfn'"
  shows "shrinks (coefficient_matrix wfn') (coefficient_matrix wfn)"
proof -
  from assms obtain options where g: "get wfn co = Inr options"
    and s: "set_item wfn co (options |-| {|t|}) = Inr wfn'"
    by (auto simp: constrain_def split: sum.splits if_splits)
  show ?thesis by (rule set_item_shrinks[OF g _ s]) auto
qed

lemma ops_reach_shrinks:
  "ops_reach wfn wfn' \<Longrightarrow> shrinks (coefficient_matrix wfn') (coefficient_matrix wfn)"
proof (induction rule: ops_reach.induct)
  case (ops_none wfn)
  show ?case by (rule shrinks_refl)
next
  case (ops_collapse wfn wfn1 co_ords u wfn2)
  from collapse_shrinks[OF ops_collapse(2)] ops_collapse(3) show ?case
    by (rule shrinks_trans)
next
  case (ops_constrain wfn wfn1 co_ords tile wfn2)
  from constrain_shrinks[OF ops_constrain(2)] ops_constrain(3) show ?case
    by (rule shrinks_trans)
qed

lemma shrinks_fcard:
  "shrinks cm' cm \<Longrightarrow> list_all2 (list_all2 (\<lambda>sq' sq. fcard sq' \<le> fcard sq)) cm' cm"
  unfolding shrinks_def
  by (erule list_all2_mono, erule list_all2_mono) (simp add: fcard_mono)

section \<open>Cells of a well-shaped matrix\<close>

lemma get_in_grid:
  assumes "has_shape sz (coefficient_matrix wfn)" "in_grid sz co"
  shows "get wfn co = Inr (cell (coefficient_matrix wfn) co)"
  using locate_in_grid[OF assms] by (simp add: get_locate cell_def)

lemma in_grid_eq_iff:
  assumes "in_grid sz c" "in_grid sz c'"
  shows "(nat (fst c') = nat (fst c) \<and> nat (snd c') = nat (snd c)) \<longleftrightarrow> c' = c"
  using assms by (cases c; cases c') (auto simp: in_grid_def)

lemma has_shape_update:
  assumes "has_shape sz cm"
  shows "has_shape sz (cm[k := (cm ! k)[j := v]])"
  using assms
  by (simp add: has_shape_def list_all_length length_nth_update_cell)

lemma set_item_in_grid:
  assumes "has_shape sz (coefficient_matrix wfn)" "in_grid sz co"
  shows "\<exists>wfn'. set_item wfn co v = Inr wfn' \<and>
           has_shape sz (coefficient_matrix wfn') \<and> weights wfn' = weights wfn \<and>
           (\<forall>co'. in_grid sz co' \<longrightarrow>
              cell (coefficient_matrix wfn') co' =
                (if co' = co then v else cell (coefficient_matrix wfn) co'))"
proof -
  let ?cm = "coefficient_matrix wfn"
  let ?k = "nat (fst co)" and ?j = "nat (snd co)"
  let ?cm' = "?cm[?k := (?cm ! ?k)[?j := v]]"
  have loc: "locate ?cm co = Some (?k, ?j)" using assms by (rule locate_in_grid)
  from locate_less[OF loc] have k: "?k < length ?cm" and j: "?j < length (?cm ! ?k)" by auto
  have "cell ?cm' co' = (if co' = co then v else cell ?cm co')" if "in_grid sz co'" for co'
  proof -
    from in_grid_eq_iff[OF assms(2) that]
    have eq: "(nat (fst co') = ?k \<and> nat (snd co') = ?j) \<longleftrightarrow> co' = co" .
    show ?thesis
    proof (cases "co' = co")
      case True
      with k j show ?thesis by (simp add: cell_def)
    next
      case False
      with eq have "nat (fst co') \<noteq> ?k \<or> nat (snd co') \<noteq> ?j" by blast
      with False k show ?thesis
        by (cases "nat (fst co') = ?k") (auto simp: cell_def nth_list_update)
    qed
  qed
  with loc has_shape_update[OF assms(1)] show ?thesis
    by (simp add: set_item_locate)
qed

subsection \<open>Sums over the matrix\<close>

lemma sum_list_update_nat:
  fixes xs :: "nat list"
  assumes "k < length xs"
  shows "sum_list (xs[k := v]) + xs ! k = sum_list xs + v"
  using assms
proof (induction xs arbitrary: k)
  case Nil
  then show ?case by simp
next
  case (Cons a xs)
  then show ?case by (cases k) auto
qed

lemma total_update:
  assumes "k < length cm" "j < length (cm ! k)"
  shows "total (cm[k := (cm ! k)[j := v]]) + fcard (cm ! k ! j) = total cm + fcard v"
proof -
  let ?f = "\<lambda>row. sum_list (map fcard row)"
  have row: "?f ((cm ! k)[j := v]) + fcard (cm ! k ! j) = ?f (cm ! k) + fcard v"
    using sum_list_update_nat[of j "map fcard (cm ! k)" "fcard v"] assms(2)
    by (simp add: map_update)
  have "total (cm[k := (cm ! k)[j := v]]) + ?f (cm ! k) = total cm + ?f ((cm ! k)[j := v])"
    using sum_list_update_nat[of k "map ?f cm" "?f ((cm ! k)[j := v])"] assms(1)
    by (simp add: total_def map_update)
  with row show ?thesis by linarith
qed

subsection \<open>Rules for a loop whose body can raise\<close>

lemma for_each_total:
  assumes "I D s"
    and "\<And>x D s. x \<in> set xs \<Longrightarrow> I D s \<Longrightarrow> \<exists>s'. body x s = Inr s' \<and> I (insert x D) s'"
  shows "\<exists>s'. for_each body xs s = Inr s' \<and> I (D \<union> set xs) s'"
  using assms
proof (induction xs arbitrary: D s)
  case Nil
  then show ?case by simp
next
  case (Cons x xs)
  from Cons.prems obtain s1 where s1: "body x s = Inr s1" "I (insert x D) s1"
    by (meson list.set_intros(1))
  have "\<exists>s'. for_each body xs s1 = Inr s' \<and> I (insert x D \<union> set xs) s'"
    by (rule Cons.IH[OF s1(2)]) (rule Cons.prems(2), auto)
  with s1 show ?case by simp
qed

lemma for_each_partial:
  assumes "for_each body xs s = Inr s'" "I D s"
    and "\<And>x D s s'. x \<in> set xs \<Longrightarrow> I D s \<Longrightarrow> body x s = Inr s' \<Longrightarrow> I (insert x D) s'"
  shows "I (D \<union> set xs) s'"
  using assms
proof (induction xs arbitrary: D s)
  case Nil
  then show ?case by simp
next
  case (Cons x xs)
  from Cons.prems(1) obtain s1 where s1: "body x s = Inr s1" "for_each body xs s1 = Inr s'"
    by (auto split: sum.splits)
  have i1: "I (insert x D) s1" by (rule Cons.prems(3)[OF _ Cons.prems(2) s1(1)]) simp
  have "I (insert x D \<union> set xs) s'"
    by (rule Cons.IH[OF s1(2) i1]) (rule Cons.prems(3), auto)
  then show ?case by simp
qed

section \<open>Termination of \<open>propagate\<close>\<close>

lemma propagate_dir_Inr:
  assumes "propagate_dir orc cur tiles d (wfn, stack) = Inr (wfn', stack')"
  obtains other_tiles impossible where
    "get wfn (neighbour cur d) = Inr other_tiles"
    "impossible = ffilter (\<lambda>other_tile. \<not> (\<exists>cur_tile |\<in>| tiles. check orc cur_tile other_tile d)) other_tiles"
    "set_item wfn (neighbour cur d) (other_tiles |-| impossible) = Inr wfn'"
    "stack' = stack @ replicate (fcard impossible) (neighbour cur d)"
  using assms
  by (auto simp: propagate_dir_def neighbour_def Let_def split: sum.splits)

lemma propagate_dir_measure:
  assumes "propagate_dir orc cur tiles d (wfn, stack) = Inr (wfn', stack')"
  shows "2 * total (coefficient_matrix wfn') + length stack'
           \<le> 2 * total (coefficient_matrix wfn) + length stack"
proof -
  from assms obtain other_tiles impossible where
    g: "get wfn (neighbour cur d) = Inr other_tiles" and
    i: "impossible = ffilter (\<lambda>other_tile. \<not> (\<exists>cur_tile |\<in>| tiles. check orc cur_tile other_tile d)) other_tiles" and
    s: "set_item wfn (neighbour cur d) (other_tiles |-| impossible) = Inr wfn'" and
    st: "stack' = stack @ replicate (fcard impossible) (neighbour cur d)"
    by (rule propagate_dir_Inr)
  let ?cm = "coefficient_matrix wfn"
  from get_Inr[OF g] obtain k j where
    loc: "locate ?cm (neighbour cur d) = Some (k, j)" and o: "other_tiles = ?cm ! k ! j"
    by blast
  from s loc have cm': "coefficient_matrix wfn' = ?cm[k := (?cm ! k)[j := other_tiles |-| impossible]]"
    by (auto simp: set_item_locate)
  from i have sub: "impossible |\<subseteq>| other_tiles" by auto
  then have c: "fcard (other_tiles |-| impossible) = fcard other_tiles - fcard impossible"
    by (rule fcard_funion_fsubset)
  from sub have le: "fcard impossible \<le> fcard other_tiles" by (rule fcard_mono)
  from locate_less[OF loc] have "k < length ?cm" "j < length (?cm ! k)" by auto
  from total_update[OF this, of "other_tiles |-| impossible"] cm' o c
  have "total (coefficient_matrix wfn') + fcard other_tiles
          = total ?cm + (fcard other_tiles - fcard impossible)" by simp
  with le st show ?thesis by simp
qed

lemma propagate_dir_shrinks:
  assumes "propagate_dir orc cur tiles d (wfn, stack) = Inr (wfn', stack')"
  shows "shrinks (coefficient_matrix wfn') (coefficient_matrix wfn) \<and> weights wfn' = weights wfn"
proof -
  from assms obtain other_tiles impossible where
    g: "get wfn (neighbour cur d) = Inr other_tiles" and
    s: "set_item wfn (neighbour cur d) (other_tiles |-| impossible) = Inr wfn'"
    by (rule propagate_dir_Inr)
  have "other_tiles |-| impossible |\<subseteq>| other_tiles" by auto
  with g have "shrinks (coefficient_matrix wfn') (coefficient_matrix wfn)"
    using s by (rule set_item_shrinks)
  with set_item_weights[OF s] show ?thesis by simp
qed

lemma for_each_dirs_measure:
  assumes "for_each (propagate_dir orc cur tiles) ds (wfn, stack) = Inr (wfn', stack')"
  shows "2 * total (coefficient_matrix wfn') + length stack'
           \<le> 2 * total (coefficient_matrix wfn) + length stack"
proof -
  let ?I = "\<lambda>(D :: Direction set) (w, st).
     2 * total (coefficient_matrix w) + length st \<le> 2 * total (coefficient_matrix wfn) + length stack"
  have "?I ({} \<union> set ds) (wfn', stack')"
  proof (rule for_each_partial[OF assms, where I = ?I])
    show "?I {} (wfn, stack)" by simp
  next
    fix x D s s'
    assume i: "?I D s" and b: "propagate_dir orc cur tiles x s = Inr s'"
    obtain w1 st1 w2 st2 where s: "s = (w1, st1)" "s' = (w2, st2)" by (cases s; cases s')
    from b have "2 * total (coefficient_matrix w2) + length st2
                   \<le> 2 * total (coefficient_matrix w1) + length st1"
      unfolding s by (rule propagate_dir_measure)
    with i s show "?I (insert x D) s'" by simp
  qed
  then show ?thesis by simp
qed

lemma for_each_dirs_shrinks:
  assumes "for_each (propagate_dir orc cur tiles) ds (wfn, stack) = Inr (wfn', stack')"
  shows "shrinks (coefficient_matrix wfn') (coefficient_matrix wfn) \<and> weights wfn' = weights wfn"
proof -
  let ?I = "\<lambda>(D :: Direction set) (w, st :: Coordinates list).
     shrinks (coefficient_matrix w) (coefficient_matrix wfn) \<and> weights w = weights wfn"
  have "?I ({} \<union> set ds) (wfn', stack')"
  proof (rule for_each_partial[OF assms, where I = ?I])
    show "?I {} (wfn, stack)" by (simp add: shrinks_refl)
  next
    fix x D s s'
    assume i: "?I D s" and b: "propagate_dir orc cur tiles x s = Inr s'"
    obtain w1 st1 w2 st2 where s: "s = (w1, st1)" "s' = (w2, st2)" by (cases s; cases s')
    from b have "shrinks (coefficient_matrix w2) (coefficient_matrix w1) \<and> weights w2 = weights w1"
      unfolding s by (rule propagate_dir_shrinks)
    with i s show "?I (insert x D) s'" by (auto intro: shrinks_trans)
  qed
  then show ?thesis by simp
qed

lemma propagate_step_measure:
  assumes "stack \<noteq> []"
  shows "loop_measure (propagate_step sz orc (wfn, stack)) < loop_measure (Inr (wfn, stack))"
proof (cases "propagate_step sz orc (wfn, stack)")
  case (Inl e)
  then show ?thesis by (simp add: loop_measure_def)
next
  case (Inr st')
  obtain wfn' stack' where st': "st' = (wfn', stack')" by (cases st')
  from Inr st' obtain tiles where
    "for_each (propagate_dir orc (last stack) tiles) (valid_dirs (last stack) sz)
       (wfn, butlast stack) = Inr (wfn', stack')"
    by (auto simp: propagate_step_def Let_def split: sum.splits)
  from for_each_dirs_measure[OF this] assms Inr st' show ?thesis
    by (cases stack rule: rev_cases) (auto simp: loop_measure_def)
qed

lemma loop_body_measure:
  assumes "stack_nonempty s"
  shows "loop_measure (loop_body sz orc s) < loop_measure s"
proof -
  from assms obtain wfn stack where s: "s = Inr (wfn, stack)" "stack \<noteq> []"
    by (auto simp: stack_nonempty_def split: sum.splits)
  with propagate_step_measure[of stack sz orc wfn] show ?thesis
    by (simp add: loop_body_def)
qed

lemma propagate_loop_terminates:
  "\<exists>t. while_option stack_nonempty (loop_body sz orc) s = Some t"
  by (rule measure_while_option_Some[where P = "\<lambda>s. True" and f = loop_measure])
     (simp_all add: loop_body_measure)

lemma propagate_terminates: "propagate m co_ords \<noteq> None"
proof -
  obtain t where "while_option stack_nonempty
      (loop_body (output_size m) (compatibility_oracle m)) (Inr (wavefunction m, [co_ords])) = Some t"
    using propagate_loop_terminates by blast
  then show ?thesis by (simp add: propagate_def split: sum.splits prod.splits)
qed

lemma propagate_step_shrinks:
  assumes "propagate_step sz orc (wfn, stack) = Inr (wfn', stack')"
  shows "shrinks (coefficient_matrix wfn') (coefficient_matrix wfn) \<and> weights wfn' = weights wfn"
proof -
  from assms obtain tiles where
    "for_each (propagate_dir orc (last stack) tiles) (valid_dirs (last stack) sz)
       (wfn, butlast stack) = Inr (wfn', stack')"
    by (auto simp: propagate_step_def Let_def split: sum.splits)
  then show ?thesis by (rule for_each_dirs_shrinks)
qed

lemma propagate_shrinks:
  assumes "propagate m co_ords = Some (Inr m')"
  shows "shrinks (coefficient_matrix (wavefunction m')) (coefficient_matrix (wavefunction m)) \<and>
         weights (wavefunction m') = weights (wavefunction m) \<and>
         output_size m' = output_size m \<and> compatibility_oracle m' = compatibility_oracle m"
proof -
  let ?P = "\<lambda>s. case s of Inl (e :: error) \<Rightarrow> True
     | Inr (w, st :: Coordinates list) \<Rightarrow>
         shrinks (coefficient_matrix w) (coefficient_matrix (wavefunction m)) \<and>
         weights w = weights (wavefunction m)"
  from assms obtain wfn' stack' where
    w: "while_option stack_nonempty (loop_body (output_size m) (compatibility_oracle m))
          (Inr (wavefunction m, [co_ords])) = Some (Inr (wfn', stack'))"
    and m': "m' = m\<lparr>wavefunction := wfn'\<rparr>"
    by (auto simp: propagate_def split: option.splits sum.splits prod.splits)
  have "?P (Inr (wfn', stack'))"
  proof (rule while_option_rule[OF _ w, where P = ?P])
    show "?P (Inr (wavefunction m, [co_ords]))" by (simp add: shrinks_refl)
  next
    fix s assume "?P s" "stack_nonempty s"
    then show "?P (loop_body (output_size m) (compatibility_oracle m) s)"
      by (auto simp: loop_body_def split: sum.splits dest!: propagate_step_shrinks
               intro: shrinks_trans)
  qed
  with m' show ?thesis by simp
qed

section \<open>Propagation on a well-shaped grid\<close>

lemma in_range_list: "i \<in> set (range_list n) \<longleftrightarrow> 0 \<le> i \<and> i < n"
proof
  assume "i \<in> set (range_list n)"
  then show "0 \<le> i \<and> i < n" by (auto simp: range_list_def)
next
  assume a: "0 \<le> i \<and> i < n"
  then have "nat i \<in> {0..<nat n}" by auto
  then have "int (nat i) \<in> int ` {0..<nat n}" by (rule imageI)
  with a show "i \<in> set (range_list n)" by (simp add: range_list_def)
qed

lemma in_grid_co_ords: "c \<in> set (grid_co_ords sz) \<longleftrightarrow> in_grid sz c"
proof -
  obtain w h where sz: "sz = (w, h)" by (cases sz)
  obtain y x where c: "c = (y, x)" by (cases c)
  have "(y, x) \<in> set (grid_co_ords (w, h)) \<longleftrightarrow>
          y \<in> set (range_list h) \<and> x \<in> set (range_list w)"
    by (auto simp: grid_co_ords_def)
  then show ?thesis by (simp add: sz c in_range_list in_grid_def)
qed

lemma valid_dirs_neighbour:
  assumes "in_grid sz c" "d \<in> set (valid_dirs c sz)"
  shows "in_grid sz (neighbour c d) \<and> neighbour c d \<noteq> c"
  using assms
  by (cases c; cases sz)
     (auto simp: valid_dirs_def in_grid_def neighbour_def UP_def DOWN_def LEFT_def RIGHT_def
           split: if_splits)

lemma ffilter_possible:
  "other_tiles |-| ffilter (\<lambda>t. \<not> P t) other_tiles = ffilter P other_tiles"
  by auto

lemma propagate_dir_eq:
  "propagate_dir orc cur tiles d (wfn, stack) =
     (case get wfn (neighbour cur d) of
        Inl e \<Rightarrow> Inl e
      | Inr other_tiles \<Rightarrow>
          (case set_item wfn (neighbour cur d)
                  (ffilter (\<lambda>t. \<exists>a |\<in>| tiles. check orc a t d) other_tiles) of
             Inl e \<Rightarrow> Inl e
           | Inr wfn' \<Rightarrow>
               Inr (wfn', stack @ replicate
                     (fcard (ffilter (\<lambda>t. \<not> (\<exists>a |\<in>| tiles. check orc a t d)) other_tiles))
                     (neighbour cur d))))"
  unfolding propagate_dir_def neighbour_def Let_def ffilter_possible
  by (simp split: sum.splits)

lemma propagate_dir_grid:
  assumes "has_shape sz (coefficient_matrix wfn)" "in_grid sz (neighbour cur d)"
  shows "\<exists>wfn' n. propagate_dir orc cur tiles d (wfn, stack)
                    = Inr (wfn', stack @ replicate n (neighbour cur d)) \<and>
           (n = 0 \<longleftrightarrow> (\<forall>t |\<in>| cell (coefficient_matrix wfn) (neighbour cur d).
                         \<exists>a |\<in>| tiles. check orc a t d)) \<and>
           has_shape sz (coefficient_matrix wfn') \<and> weights wfn' = weights wfn \<and>
           (\<forall>c. in_grid sz c \<longrightarrow>
              cell (coefficient_matrix wfn') c =
                (if c = neighbour cur d
                 then ffilter (\<lambda>t. \<exists>a |\<in>| tiles. check orc a t d)
                        (cell (coefficient_matrix wfn) (neighbour cur d))
                 else cell (coefficient_matrix wfn) c))"
proof -
  let ?nb = "neighbour cur d"
  let ?other = "cell (coefficient_matrix wfn) ?nb"
  let ?imp = "ffilter (\<lambda>t. \<not> (\<exists>a |\<in>| tiles. check orc a t d)) ?other"
  let ?keep = "ffilter (\<lambda>t. \<exists>a |\<in>| tiles. check orc a t d) ?other"
  have g: "get wfn ?nb = Inr ?other" using assms by (rule get_in_grid)
  have e: "?other |-| ?imp = ?keep" by (rule ffilter_possible)
  from set_item_in_grid[OF assms, of ?keep] obtain wfn' where
    s: "set_item wfn ?nb ?keep = Inr wfn'" and
    sh: "has_shape sz (coefficient_matrix wfn')" and w: "weights wfn' = weights wfn" and
    c: "\<forall>co'. in_grid sz co' \<longrightarrow> cell (coefficient_matrix wfn') co' =
           (if co' = ?nb then ?keep else cell (coefficient_matrix wfn) co')"
    by blast
  have p: "propagate_dir orc cur tiles d (wfn, stack)
             = Inr (wfn', stack @ replicate (fcard ?imp) ?nb)"
    by (simp add: propagate_dir_eq g s)
  have "?imp = {||} \<longleftrightarrow> (\<forall>t |\<in>| ?other. \<exists>a |\<in>| tiles. check orc a t d)"
    by (auto simp: fset_eq_iff)
  then have z: "fcard ?imp = 0 \<longleftrightarrow> (\<forall>t |\<in>| ?other. \<exists>a |\<in>| tiles. check orc a t d)"
    by simp
  show ?thesis
    apply (rule exI[of _ wfn'])
    apply (rule exI[of _ "fcard ?imp"])
    using p z sh w c by blast
qed

lemma supports_mono:
  assumes "in_grid sz c" "cell cm' c = cell cm c"
    and "\<And>c'. in_grid sz c' \<Longrightarrow> cell cm' c' |\<subseteq>| cell cm c'"
    and "supports sz orc cm c"
  shows "supports sz orc cm' c"
  unfolding supports_def
proof (intro ballI)
  fix d t assume d: "d \<in> set (valid_dirs c sz)" and t: "t |\<in>| cell cm' (neighbour c d)"
  from valid_dirs_neighbour[OF assms(1) d] have "in_grid sz (neighbour c d)" by simp
  from assms(3)[OF this] t have "t |\<in>| cell cm (neighbour c d)" by auto
  with assms(4) d obtain a where "a |\<in>| cell cm c" "check orc a t d"
    by (auto simp: supports_def)
  with assms(2) show "\<exists>a |\<in>| cell cm' c. check orc a t d" by auto
qed

lemma visit_inv_step:
  assumes cur: "in_grid sz cur" and d: "d \<in> set (valid_dirs cur sz)"
    and inv: "visit_inv sz orc cur tiles wfn0 b D st"
  shows "\<exists>st'. propagate_dir orc cur tiles d st = Inr st' \<and>
           visit_inv sz orc cur tiles wfn0 b (insert d D) st'"
proof -
  obtain wfn stack where st: "st = (wfn, stack)" by (cases st)
  let ?cm = "coefficient_matrix wfn"
  let ?nb = "neighbour cur d"
  from valid_dirs_neighbour[OF cur d] have nb: "in_grid sz ?nb" and ne: "?nb \<noteq> cur" by auto
  from inv st have shape: "has_shape sz ?cm" and ws: "weights wfn = weights wfn0"
    and stk: "\<forall>c \<in> set stack. in_grid sz c" and tiles: "cell ?cm cur = tiles"
    and D: "D \<subseteq> set (valid_dirs cur sz)"
    and sup: "\<And>c. b \<Longrightarrow> in_grid sz c \<Longrightarrow> c \<noteq> cur \<Longrightarrow> c \<notin> set stack \<Longrightarrow>
                 fcard (cell ?cm c) \<le> 1 \<Longrightarrow> supports sz orc ?cm c"
    and seen: "\<And>d' t. b \<Longrightarrow> d' \<in> D \<Longrightarrow> t |\<in>| cell ?cm (neighbour cur d') \<Longrightarrow>
                 \<exists>a |\<in>| tiles. check orc a t d'"
    by (auto simp: visit_inv_def)
  from propagate_dir_grid[OF shape nb, of orc tiles stack] obtain wfn' n where
    p: "propagate_dir orc cur tiles d (wfn, stack) = Inr (wfn', stack @ replicate n ?nb)" and
    n0: "n = 0 \<longleftrightarrow> (\<forall>t |\<in>| cell ?cm ?nb. \<exists>a |\<in>| tiles. check orc a t d)" and
    shape': "has_shape sz (coefficient_matrix wfn')" and ws': "weights wfn' = weights wfn" and
    cells: "\<And>c. in_grid sz c \<Longrightarrow> cell (coefficient_matrix wfn') c =
              (if c = ?nb then ffilter (\<lambda>t. \<exists>a |\<in>| tiles. check orc a t d) (cell ?cm ?nb)
               else cell ?cm c)"
    by blast
  let ?cm' = "coefficient_matrix wfn'"
  have sub: "cell ?cm' c |\<subseteq>| cell ?cm c" if "in_grid sz c" for c
    using cells[OF that] by auto
  have same: "cell ?cm' c = cell ?cm c" if "in_grid sz c" "c \<noteq> ?nb" for c
    using cells[OF that(1)] that(2) by simp
  have sup': "supports sz orc ?cm' c"
    if b: b and c: "in_grid sz c" "c \<noteq> cur" "c \<notin> set (stack @ replicate n ?nb)"
      "fcard (cell ?cm' c) \<le> 1" for c
  proof (cases "c = ?nb")
    case True
    with c(3) have "n = 0" by (cases n) auto
    with n0 have "ffilter (\<lambda>t. \<exists>a |\<in>| tiles. check orc a t d) (cell ?cm ?nb) = cell ?cm ?nb"
      by auto
    with cells[OF c(1)] True have eq: "cell ?cm' c = cell ?cm c" by simp
    from c have s0: "supports sz orc ?cm c" by (intro sup b) (auto simp: eq)
    show ?thesis by (rule supports_mono[OF c(1) eq sub s0])
  next
    case False
    with c(1) have eq: "cell ?cm' c = cell ?cm c" by (intro same)
    from c have s0: "supports sz orc ?cm c" by (intro sup b) (auto simp: eq)
    show ?thesis by (rule supports_mono[OF c(1) eq sub s0])
  qed
  have seen': "\<exists>a |\<in>| tiles. check orc a t d'"
    if b: b and "d' \<in> insert d D" "t |\<in>| cell ?cm' (neighbour cur d')" for d' t
  proof (cases "neighbour cur d' = ?nb")
    case True
    with that(3) cells[OF nb] have t: "t |\<in>| cell ?cm ?nb" "\<exists>a |\<in>| tiles. check orc a t d"
      by auto
    from True have "d' = d" by (cases cur; cases d; cases d') (auto simp: neighbour_def)
    with t show ?thesis by simp
  next
    case False
    with that(2) have d': "d' \<in> D" by auto
    with D cur have "in_grid sz (neighbour cur d')" by (auto dest: valid_dirs_neighbour)
    from sub[OF this] that(3) have "t |\<in>| cell ?cm (neighbour cur d')" by auto
    with b d' show ?thesis by (rule seen)
  qed
  from cells[OF cur] ne tiles have tiles': "cell ?cm' cur = tiles" by simp
  have "visit_inv sz orc cur tiles wfn0 b (insert d D) (wfn', stack @ replicate n ?nb)"
    unfolding visit_inv_def using shape' ws' ws stk nb tiles' D d sup' seen'
    by auto
  with p st show ?thesis by simp
qed

lemma propagate_step_inv:
  assumes inv: "prop_inv sz orc wfn0 b (Inr (wfn, stack))" and ne: "stack \<noteq> []"
  shows "prop_inv sz orc wfn0 b (propagate_step sz orc (wfn, stack))"
proof -
  let ?cm = "coefficient_matrix wfn"
  let ?cur = "last stack"
  let ?tiles = "cell ?cm ?cur"
  from inv have shape: "has_shape sz ?cm" and ws: "weights wfn = weights wfn0"
    and stk: "\<forall>c \<in> set stack. in_grid sz c"
    and setl: "b \<Longrightarrow> settled sz orc ?cm stack"
    by (auto simp: prop_inv_def)
  from ne stk have cur: "in_grid sz ?cur" by simp
  have g: "get wfn ?cur = Inr ?tiles" using shape cur by (rule get_in_grid)
  from ne have set_stack: "set stack = insert ?cur (set (butlast stack))"
    by (cases stack rule: rev_cases) auto
  have init: "visit_inv sz orc ?cur ?tiles wfn0 b {} (wfn, butlast stack)"
    unfolding visit_inv_def using shape ws stk setl set_stack
    by (auto simp: settled_def in_grid_co_ords dest: in_set_butlastD)
  have "\<exists>st'. for_each (propagate_dir orc ?cur ?tiles) (valid_dirs ?cur sz) (wfn, butlast stack)
                 = Inr st' \<and>
              visit_inv sz orc ?cur ?tiles wfn0 b ({} \<union> set (valid_dirs ?cur sz)) st'"
    using init
  proof (rule for_each_total)
    fix x D s
    assume "x \<in> set (valid_dirs ?cur sz)" "visit_inv sz orc ?cur ?tiles wfn0 b D s"
    with cur show "\<exists>s'. propagate_dir orc ?cur ?tiles x s = Inr s' \<and>
                     visit_inv sz orc ?cur ?tiles wfn0 b (insert x D) s'"
      by (rule visit_inv_step)
  qed
  then obtain wfn' stack' where
    f: "for_each (propagate_dir orc ?cur ?tiles) (valid_dirs ?cur sz) (wfn, butlast stack)
          = Inr (wfn', stack')" and
    v: "visit_inv sz orc ?cur ?tiles wfn0 b (set (valid_dirs ?cur sz)) (wfn', stack')"
    by auto
  from g f have step: "propagate_step sz orc (wfn, stack) = Inr (wfn', stack')"
    by (simp add: propagate_step_def Let_def)
  let ?cm' = "coefficient_matrix wfn'"
  from v have shape': "has_shape sz ?cm'" and ws': "weights wfn' = weights wfn0"
    and stk': "\<forall>c \<in> set stack'. in_grid sz c" and tiles': "cell ?cm' ?cur = ?tiles"
    and sup: "\<And>c. b \<Longrightarrow> in_grid sz c \<Longrightarrow> c \<noteq> ?cur \<Longrightarrow> c \<notin> set stack' \<Longrightarrow>
                 fcard (cell ?cm' c) \<le> 1 \<Longrightarrow> supports sz orc ?cm' c"
    and seen: "\<And>d t. b \<Longrightarrow> d \<in> set (valid_dirs ?cur sz) \<Longrightarrow>
                 t |\<in>| cell ?cm' (neighbour ?cur d) \<Longrightarrow> \<exists>a |\<in>| ?tiles. check orc a t d"
    by (auto simp: visit_inv_def)
  have "settled sz orc ?cm' stack'" if b: b
    unfolding settled_def
  proof (intro ballI impI)
    fix c assume c: "c \<in> set (grid_co_ords sz)" "c \<notin> set stack'" "fcard (cell ?cm' c) \<le> 1"
    then have ig: "in_grid sz c" by (simp add: in_grid_co_ords)
    show "supports sz orc ?cm' c"
    proof (cases "c = ?cur")
      case True
      show ?thesis unfolding supports_def True tiles' using seen[OF b] by blast
    next
      case False
      with b ig c show ?thesis by (intro sup)
    qed
  qed
  with step shape' ws' stk' show ?thesis by (simp add: prop_inv_def)
qed

lemma propagate_grid:
  assumes shape: "has_shape (output_size m) (coefficient_matrix (wavefunction m))"
    and co: "in_grid (output_size m) co_ords"
    and setl: "b \<Longrightarrow> settled (output_size m) (compatibility_oracle m)
                  (coefficient_matrix (wavefunction m)) [co_ords]"
  shows "\<exists>m'. propagate m co_ords = Some (Inr m') \<and>
           has_shape (output_size m) (coefficient_matrix (wavefunction m')) \<and>
           (b \<longrightarrow> settled (output_size m) (compatibility_oracle m)
                      (coefficient_matrix (wavefunction m')) [])"
proof -
  let ?sz = "output_size m" and ?orc = "compatibility_oracle m"
  let ?P = "prop_inv ?sz ?orc (wavefunction m) b"
  obtain t where w: "while_option stack_nonempty (loop_body ?sz ?orc)
                       (Inr (wavefunction m, [co_ords])) = Some t"
    using propagate_loop_terminates by blast
  have "?P t"
  proof (rule while_option_rule[OF _ w, where P = "?P"])
    show "?P (Inr (wavefunction m, [co_ords]))"
      using shape co setl by (simp add: prop_inv_def)
  next
    fix s assume "?P s" "stack_nonempty s"
    then show "?P (loop_body ?sz ?orc s)"
      by (cases s) (auto simp: loop_body_def stack_nonempty_def prop_inv_def[of _ _ _ _ "Inl _"]
                         intro: propagate_step_inv)
  qed
  moreover from while_option_stop[OF w] have "\<not> stack_nonempty t" .
  ultimately obtain wfn' where t: "t = Inr (wfn', [])"
    and "has_shape ?sz (coefficient_matrix wfn')"
    and "b \<longrightarrow> settled ?sz ?orc (coefficient_matrix wfn') []"
    by (cases t) (auto simp: prop_inv_def stack_nonempty_def)
  with w show ?thesis by (simp add: propagate_def)
qed

section \<open>The scan of \<open>min_entropy_co_ords\<close>\<close>

lemma shannon_entropy_Inr:
  assumes "shannon_entropy wfn co = Inr e"
  shows "\<exists>options. get wfn co = Inr options \<and> options \<noteq> {||}"
proof -
  from assms obtain options where g: "get wfn co = Inr options"
    by (auto simp: shannon_entropy_def split: sum.splits)
  have "options \<noteq> {||}"
  proof
    assume "options = {||}"
    with g have "shannon_entropy wfn co = Inl ValueError"
      by (simp add: shannon_entropy_def)
    with assms show False by simp
  qed
  with g show ?thesis by blast
qed

lemma scan_cell_inv:
  assumes "scan_cell wfn co st = Inr st'" "scan_inv wfn V st"
  shows "scan_inv wfn (insert co V) st'"
proof -
  obtain mn best r where st: "st = (mn, best, r)" by (cases st)
  from assms(1) obtain options where g: "get wfn co = Inr options"
    by (auto simp: scan_cell_def st split: sum.splits)
  show ?thesis
  proof (cases "fcard options = 1")
    case True
    with assms g st have "st' = st" by (simp add: scan_cell_def)
    with assms(2) g True st show ?thesis
      by (auto simp: scan_inv_def split: option.splits)
  next
    case False
    with assms(1) g st obtain e where e: "shannon_entropy wfn co = Inr e"
      by (auto simp: scan_cell_def split: sum.splits)
    from shannon_entropy_Inr[OF e] g have ne: "options \<noteq> {||}" by auto
    from assms(1) g st False e have
      "st' = (Some (e - r 0 / 1000), co, advance r) \<or>
       (mn \<noteq> None \<and> st' = (mn, best, advance r))"
      by (auto simp: scan_cell_def Let_def split: if_splits option.splits)
    with assms(2) g False ne st show ?thesis
      by (auto simp: scan_inv_def split: option.splits)
  qed
qed

lemma min_entropy_co_ords_inv:
  assumes "min_entropy_co_ords m r = Inr (co, r')"
  shows "\<exists>mn. scan_inv (wavefunction m) (set (grid_co_ords (output_size m))) (mn, co, r')"
proof -
  from assms obtain mn where
    f: "for_each (scan_cell (wavefunction m)) (grid_co_ords (output_size m)) (None, (0, 0), r)
          = Inr (mn, co, r')"
    by (auto simp: min_entropy_co_ords_def split: sum.splits)
  have "scan_inv (wavefunction m) ({} \<union> set (grid_co_ords (output_size m))) (mn, co, r')"
    using f
  proof (rule for_each_partial)
    show "scan_inv (wavefunction m) {} (None, (0, 0), r)" by (simp add: scan_inv_def)
  next
    fix x D s s'
    assume "scan_inv (wavefunction m) D s" "scan_cell (wavefunction m) x s = Inr s'"
    then show "scan_inv (wavefunction m) (insert x D) s'" by (rule scan_cell_inv[rotated])
  qed
  then show ?thesis by auto
qed

text \<open>
  On locations that all hold exactly one tile the scan changes nothing; at a location
  that holds no tile it raises, and a loop whose body raises at some element raises.
\<close>

lemma for_each_all_collapsed:
  "\<forall>c \<in> set cs. \<exists>options. get wfn c = Inr options \<and> fcard options = 1 \<Longrightarrow>
     for_each (scan_cell wfn) cs st = Inr st"
  by (induction cs) (auto simp: scan_cell_def split: prod.splits)

lemma scan_cell_empty: "get wfn c = Inr {||} \<Longrightarrow> scan_cell wfn c st = Inl ValueError"
  by (cases st) (simp add: scan_cell_def shannon_entropy_def fcard_fempty)

lemma shannon_entropy_returns:
  assumes g: "get wfn c = Inr options" and d: "entropy_defined wfn options"
  shows "\<exists>e. shannon_entropy wfn c = Inr e"
proof -
  let ?w = "\<lambda>option. the (map_of (weights wfn) option)"
  from d have ne: "options \<noteq> {||}"
    and w: "\<And>option. option |\<in>| options \<Longrightarrow>
              map_of (weights wfn) option \<noteq> None \<and> 0 < ?w option \<and> double_range (?w option)"
    and r: "double_range (\<Sum>option \<in> fset options. ?w option)"
    by (auto simp: entropy_defined_def split: option.splits)
  from ne have "fset options \<noteq> {}" by auto
  moreover from w have "\<And>option. option \<in> fset options \<Longrightarrow> 0 < ?w option" by simp
  ultimately have "0 < (\<Sum>option \<in> fset options. ?w option)"
    by (intro sum_pos) simp_all
  with g w r show ?thesis
    by (auto simp: shannon_entropy_def Let_def not_le)
qed

lemma scan_cell_returns:
  assumes "get wfn c = Inr options" "fcard options = 1 \<or> entropy_defined wfn options"
  shows "\<exists>st'. scan_cell wfn c st = Inr st'"
proof (cases "fcard options = 1")
  case True
  with assms(1) show ?thesis by (cases st) (simp add: scan_cell_def)
next
  case False
  with assms have "entropy_defined wfn options" by simp
  from shannon_entropy_returns[OF assms(1) this] obtain e where
    "shannon_entropy wfn c = Inr e" by blast
  with assms(1) False show ?thesis
    by (cases st) (simp add: scan_cell_def Let_def)
qed

lemma for_each_returns:
  "(\<And>x s. x \<in> set xs \<Longrightarrow> \<exists>s'. body x s = Inr s') \<Longrightarrow> \<exists>s'. for_each body xs s = Inr s'"
proof (induction xs arbitrary: s)
  case Nil
  then show ?case by simp
next
  case (Cons x xs)
  from Cons.prems[of x s] obtain s1 where s1: "body x s = Inr s1" by auto
  have "\<exists>s'. for_each body xs s1 = Inr s'"
    by (rule Cons.IH) (rule Cons.prems, simp)
  with s1 show ?case by simp
qed

lemma for_each_raises:
  "\<exists>x \<in> set xs. \<forall>s. \<exists>e. body x s = Inl e \<Longrightarrow> \<exists>e. for_each body xs s = Inl e"
proof (induction xs arbitrary: s)
  case Nil
  then show ?case by simp
next
  case (Cons x xs)
  show ?case
  proof (cases "body x s")
    case (Inl e)
    then show ?thesis by simp
  next
    case (Inr s')
    have "\<not> (\<forall>s. \<exists>e. body x s = Inl e)"
    proof
      assume "\<forall>s. \<exists>e. body x s = Inl e"
      then obtain e where "body x s = Inl e" by blast
      with Inr show False by simp
    qed
    with Cons.prems have "\<exists>x \<in> set xs. \<forall>s. \<exists>e. body x s = Inl e" by auto
    from Cons.IH[OF this, of s'] Inr show ?thesis by simp
  qed
qed

lemma exists_uncollapsed:
  assumes shape: "has_shape sz (coefficient_matrix wfn)" and nfc: "\<not> is_fully_collapsed wfn"
  shows "\<exists>c. in_grid sz c \<and> 1 < fcard (cell (coefficient_matrix wfn) c)"
proof -
  let ?cm = "coefficient_matrix wfn"
  from nfc obtain row sq where "row \<in> set ?cm" "sq \<in> set row" "1 < fcard sq"
    by (auto simp: is_fully_collapsed_iff not_le)
  then obtain k j where k: "k < length ?cm" "row = ?cm ! k" and j: "j < length row" "sq = row ! j"
    by (auto simp: in_set_conv_nth)
  from has_shape_row[OF shape k(1)] k j have "j < nat (fst sz)" by simp
  moreover from shape k have "k < nat (snd sz)" by (simp add: has_shape_def)
  ultimately have "in_grid sz (int k, int j)" by (auto simp: in_grid_def)
  moreover from k j \<open>1 < fcard sq\<close> have "1 < fcard (cell ?cm (int k, int j))"
    by (simp add: cell_def)
  ultimately show ?thesis by blast
qed

lemma min_entropy_co_ords_uncollapsed:
  assumes shape: "has_shape (output_size m) (coefficient_matrix (wavefunction m))"
    and nfc: "\<not> is_fully_collapsed (wavefunction m)"
    and res: "min_entropy_co_ords m r = Inr (co, r')"
  shows "in_grid (output_size m) co \<and> 1 < fcard (cell (coefficient_matrix (wavefunction m)) co)"
proof -
  let ?sz = "output_size m" and ?wfn = "wavefunction m"
  let ?cm = "coefficient_matrix ?wfn"
  from min_entropy_co_ords_inv[OF res] obtain mn where
    inv: "scan_inv ?wfn (set (grid_co_ords ?sz)) (mn, co, r')" by blast
  from exists_uncollapsed[OF shape nfc] obtain c where
    c: "in_grid ?sz c" "1 < fcard (cell ?cm c)" by blast
  from get_in_grid[OF shape c(1)] have gc: "get ?wfn c = Inr (cell ?cm c)" .
  have "mn \<noteq> None"
  proof
    assume "mn = None"
    with inv c(1) have "\<exists>options. get ?wfn c = Inr options \<and> fcard options = 1"
      by (simp add: scan_inv_def in_grid_co_ords)
    with gc c(2) show False by simp
  qed
  then obtain least where "mn = Some least" by auto
  with inv have co: "in_grid ?sz co" and
    ex: "\<exists>options. get ?wfn co = Inr options \<and> fcard options \<noteq> 1 \<and> options \<noteq> {||}"
    by (simp_all add: scan_inv_def in_grid_co_ords)
  from ex obtain options where
    o: "get ?wfn co = Inr options" "fcard options \<noteq> 1" "options \<noteq> {||}"
    by blast
  from get_in_grid[OF shape co] o(1) have "options = cell ?cm co" by simp
  moreover from o(2,3) have "1 < fcard options"
    by (cases "fcard options") auto
  ultimately show ?thesis using co by simp
qed

section \<open>The loop of \<open>run\<close>\<close>

lemma uncollapsed_update:
  assumes "k < length cm" "j < length (cm ! k)"
  shows "uncollapsed (cm[k := (cm ! k)[j := v]]) + (if 1 < fcard (cm ! k ! j) then 1 else 0)
           = uncollapsed cm + (if 1 < fcard v then 1 else 0)"
proof -
  let ?g = "\<lambda>sq :: Coefficients. if 1 < fcard sq then 1 else 0 :: nat"
  let ?f = "\<lambda>row. sum_list (map ?g row)"
  have row: "?f ((cm ! k)[j := v]) + ?g (cm ! k ! j) = ?f (cm ! k) + ?g v"
    using sum_list_update_nat[of j "map ?g (cm ! k)" "?g v"] assms(2)
    by (simp add: map_update)
  have "uncollapsed (cm[k := (cm ! k)[j := v]]) + ?f (cm ! k)
          = uncollapsed cm + ?f ((cm ! k)[j := v])"
    using sum_list_update_nat[of k "map ?f cm" "?f ((cm ! k)[j := v])"] assms(1)
    by (simp add: uncollapsed_def map_update)
  with row show ?thesis by linarith
qed

lemma sum_list_mono2:
  fixes f g :: "'a \<Rightarrow> nat"
  assumes "list_all2 (\<lambda>a b. f a \<le> g b) xs ys"
  shows "sum_list (map f xs) \<le> sum_list (map g ys)"
  using assms by (induction rule: list_all2_induct) auto

lemma uncollapsed_mono:
  assumes "shrinks cm' cm"
  shows "uncollapsed cm' \<le> uncollapsed cm"
proof -
  let ?g = "\<lambda>sq :: Coefficients. if 1 < fcard sq then 1 else 0 :: nat"
  have cellwise: "?g a \<le> ?g b" if "a |\<subseteq>| b" for a b :: Coefficients
    using fcard_mono[OF that] by auto
  have "list_all2 (\<lambda>r' r. sum_list (map ?g r') \<le> sum_list (map ?g r)) cm' cm"
    using assms unfolding shrinks_def
  proof (rule list_all2_mono)
    fix r' r :: "Coefficients list"
    assume "list_all2 (\<lambda>sq' sq. sq' |\<subseteq>| sq) r' r"
    then have "list_all2 (\<lambda>a b. ?g a \<le> ?g b) r' r"
      by (rule list_all2_mono) (rule cellwise)
    then show "sum_list (map ?g r') \<le> sum_list (map ?g r)" by (rule sum_list_mono2)
  qed
  then show ?thesis unfolding uncollapsed_def by (rule sum_list_mono2)
qed

lemma sum_list_bounded:
  fixes f :: "'a \<Rightarrow> nat"
  assumes "\<And>x. x \<in> set xs \<Longrightarrow> f x \<le> b"
  shows "sum_list (map f xs) \<le> length xs * b"
  using assms by (induction xs) (auto intro: add_mono)

lemma uncollapsed_bound:
  assumes "has_shape sz cm"
  shows "uncollapsed cm \<le> nat (fst sz) * nat (snd sz)"
proof -
  let ?g = "\<lambda>sq :: Coefficients. if 1 < fcard sq then 1 else 0 :: nat"
  have "sum_list (map ?g row) \<le> nat (fst sz)" if "row \<in> set cm" for row
  proof -
    have "sum_list (map ?g row) \<le> length row * 1" by (rule sum_list_bounded) simp
    with that assms show ?thesis by (auto simp: has_shape_def list_all_iff)
  qed
  then have "uncollapsed cm \<le> length cm * nat (fst sz)"
    unfolding uncollapsed_def by (rule sum_list_bounded)
  with assms show ?thesis by (simp add: has_shape_def mult.commute)
qed

lemma uncollapsed_zero:
  assumes "uncollapsed (coefficient_matrix wfn) = 0"
  shows "is_fully_collapsed wfn"
  unfolding is_fully_collapsed_iff
proof (intro ballI)
  fix row sq assume "row \<in> set (coefficient_matrix wfn)" "sq \<in> set row"
  with assms have "(if 1 < fcard sq then 1 else 0 :: nat) = 0"
    by (auto simp: uncollapsed_def)
  then show "fcard sq \<le> 1" by (simp split: if_splits)
qed

lemma collapse_grid:
  assumes shape: "has_shape sz (coefficient_matrix wfn)" and co: "in_grid sz co"
    and c: "collapse wfn co u = Inr wfn'"
  shows "\<exists>chosen. chosen |\<in>| cell (coefficient_matrix wfn) co \<and>
           has_shape sz (coefficient_matrix wfn') \<and> weights wfn' = weights wfn \<and>
           (\<forall>c'. in_grid sz c' \<longrightarrow>
              cell (coefficient_matrix wfn') c' =
                (if c' = co then {|chosen|} else cell (coefficient_matrix wfn) c'))"
proof -
  from c obtain options chosen where g: "get wfn co = Inr options"
    and ch: "chosen |\<in>| options" and s: "set_item wfn co {|chosen|} = Inr wfn'"
    by (rule collapse_Inr)
  from get_in_grid[OF shape co] g have "options = cell (coefficient_matrix wfn) co" by simp
  with ch set_item_in_grid[OF shape co, of "{|chosen|}"] s show ?thesis by auto
qed

lemma settled_collapse:
  assumes setl: "settled sz orc cm []" and co: "in_grid sz co"
    and cells: "\<And>c'. in_grid sz c' \<Longrightarrow> cell cm' c' = (if c' = co then {|chosen|} else cell cm c')"
    and ch: "chosen |\<in>| cell cm co"
  shows "settled sz orc cm' [co]"
  unfolding settled_def
proof (intro ballI impI)
  fix c assume c: "c \<in> set (grid_co_ords sz)" "c \<notin> set [co]" "fcard (cell cm' c) \<le> 1"
  then have ig: "in_grid sz c" and ne: "c \<noteq> co" by (simp_all add: in_grid_co_ords)
  from cells[OF ig] ne have eq: "cell cm' c = cell cm c" by simp
  have sub: "cell cm' c' |\<subseteq>| cell cm c'" if "in_grid sz c'" for c'
    using cells[OF that] ch by auto
  from setl c(1) c(3) eq have "supports sz orc cm c" by (simp add: settled_def)
  with ig eq sub show "supports sz orc cm' c" by (rule supports_mono)
qed

lemma collapse_uncollapsed:
  assumes shape: "has_shape sz (coefficient_matrix wfn)" and co: "in_grid sz co"
    and big: "1 < fcard (cell (coefficient_matrix wfn) co)"
    and c: "collapse wfn co u = Inr wfn'"
  shows "uncollapsed (coefficient_matrix wfn') < uncollapsed (coefficient_matrix wfn)"
proof -
  let ?cm = "coefficient_matrix wfn"
  from c obtain options chosen where g: "get wfn co = Inr options"
    and s: "set_item wfn co {|chosen|} = Inr wfn'"
    by (rule collapse_Inr)
  from get_in_grid[OF shape co] g have o: "options = cell ?cm co" by simp
  from set_item_Inr[OF s] obtain k j where loc: "locate ?cm co = Some (k, j)"
    and w: "wfn' = wfn\<lparr>coefficient_matrix := ?cm[k := (?cm ! k)[j := {|chosen|}]]\<rparr>"
    by blast
  from loc locate_in_grid[OF shape co] have "cell ?cm co = ?cm ! k ! j"
    by (simp add: cell_def)
  with big have b: "1 < fcard (?cm ! k ! j)" by simp
  from locate_less[OF loc] have "k < length ?cm" "j < length (?cm ! k)" by auto
  from uncollapsed_update[OF this, of "{|chosen|}"] b w show ?thesis
    by (simp add: fcard_finsert_if fcard_fempty)
qed

lemma iterate_step:
  assumes shape: "has_shape (output_size m) (coefficient_matrix (wavefunction m))"
    and nfc: "\<not> is_fully_collapsed (wavefunction m)"
    and it: "iterate m r = Some (Inr (m', r'))"
  shows "output_size m' = output_size m \<and> compatibility_oracle m' = compatibility_oracle m \<and>
         weights (wavefunction m') = weights (wavefunction m) \<and>
         has_shape (output_size m) (coefficient_matrix (wavefunction m')) \<and>
         uncollapsed (coefficient_matrix (wavefunction m'))
           < uncollapsed (coefficient_matrix (wavefunction m)) \<and>
         shrinks (coefficient_matrix (wavefunction m')) (coefficient_matrix (wavefunction m)) \<and>
         (settled (output_size m) (compatibility_oracle m)
            (coefficient_matrix (wavefunction m)) [] \<longrightarrow>
          settled (output_size m) (compatibility_oracle m)
            (coefficient_matrix (wavefunction m')) [])"
proof -
  let ?sz = "output_size m" and ?orc = "compatibility_oracle m" and ?wfn = "wavefunction m"
  let ?cm = "coefficient_matrix ?wfn"
  let ?b = "settled ?sz ?orc ?cm []"
  from it obtain co r1 wfn1 where
    me: "min_entropy_co_ords m r = Inr (co, r1)" and
    cl: "collapse ?wfn co (r1 0) = Inr wfn1" and
    pr: "propagate (m\<lparr>wavefunction := wfn1\<rparr>) co = Some (Inr m')"
    by (auto simp: iterate_def split: sum.splits option.splits prod.splits)
  let ?m1 = "m\<lparr>wavefunction := wfn1\<rparr>"
  let ?cm1 = "coefficient_matrix wfn1"
  from min_entropy_co_ords_uncollapsed[OF shape nfc me]
  have co: "in_grid ?sz co" and big: "1 < fcard (cell ?cm co)" by auto
  from collapse_grid[OF shape co cl] obtain chosen where
    ch: "chosen |\<in>| cell ?cm co" and shape1: "has_shape ?sz ?cm1"
    and ws1: "weights wfn1 = weights ?wfn"
    and cells: "\<And>c'. in_grid ?sz c' \<Longrightarrow>
                  cell ?cm1 c' = (if c' = co then {|chosen|} else cell ?cm c')"
    by blast
  have u1: "uncollapsed ?cm1 < uncollapsed ?cm"
    using shape co big cl by (rule collapse_uncollapsed)
  have s1: "shrinks ?cm1 ?cm" using cl by (rule collapse_shrinks)
  from propagate_shrinks[OF pr] have
    s2: "shrinks (coefficient_matrix (wavefunction m')) ?cm1" and
    ws2: "weights (wavefunction m') = weights wfn1" and
    os: "output_size m' = ?sz" and orc: "compatibility_oracle m' = ?orc"
    by simp_all
  have setl1: "settled ?sz ?orc ?cm1 [co]" if ?b
    using that co cells ch by (rule settled_collapse)
  from propagate_grid[of ?m1 co ?b] shape1 co setl1 pr
  have shape2: "has_shape ?sz (coefficient_matrix (wavefunction m'))"
    and setl2: "?b \<longrightarrow> settled ?sz ?orc (coefficient_matrix (wavefunction m')) []"
    by auto
  from uncollapsed_mono[OF s2] u1
  have "uncollapsed (coefficient_matrix (wavefunction m')) < uncollapsed ?cm" by simp
  with os orc ws1 ws2 shape2 setl2 shrinks_trans[OF s2 s1] show ?thesis by simp
qed

lemma iterate_returns: "iterate m r \<noteq> None"
proof
  assume "iterate m r = None"
  then obtain m1 co where "propagate m1 co = None"
    by (auto simp: iterate_def split: sum.splits option.splits prod.splits)
  with propagate_terminates show False by blast
qed

lemma run_loop_enough_fuel:
  assumes "has_shape (output_size m) (coefficient_matrix (wavefunction m))"
    and "uncollapsed (coefficient_matrix (wavefunction m)) \<le> fuel"
  shows "run_loop fuel m r \<noteq> None"
  using assms
proof (induction fuel arbitrary: m r)
  case 0
  then have "is_fully_collapsed (wavefunction m)" by (simp add: uncollapsed_zero)
  then show ?case by simp
next
  case (Suc fuel)
  show ?case
  proof (cases "is_fully_collapsed (wavefunction m)")
    case True
    then show ?thesis by simp
  next
    case False
    show ?thesis
    proof (cases "iterate m r")
      case None
      with iterate_returns show ?thesis by blast
    next
      case (Some res)
      show ?thesis
      proof (cases res)
        case (Inl e)
        with Some False show ?thesis by simp
      next
        case (Inr p)
        obtain m' r' where p: "p = (m', r')" by (cases p)
        from iterate_step[OF Suc.prems(1) False] Some Inr p
        have "has_shape (output_size m') (coefficient_matrix (wavefunction m'))"
          and "uncollapsed (coefficient_matrix (wavefunction m'))
                 < uncollapsed (coefficient_matrix (wavefunction m))"
          by simp_all
        with Suc.prems(2) have "run_loop fuel m' r' \<noteq> None"
          by (intro Suc.IH) simp_all
        with Some Inr p False show ?thesis by simp
      qed
    qed
  qed
qed

lemma run_loop_result:
  assumes "has_shape (output_size m) (coefficient_matrix (wavefunction m))"
    and "run_loop fuel m r = Some (Inr (m', r'))"
  shows "is_fully_collapsed (wavefunction m') \<and>
         output_size m' = output_size m \<and> compatibility_oracle m' = compatibility_oracle m \<and>
         weights (wavefunction m') = weights (wavefunction m) \<and>
         has_shape (output_size m) (coefficient_matrix (wavefunction m')) \<and>
         shrinks (coefficient_matrix (wavefunction m')) (coefficient_matrix (wavefunction m)) \<and>
         (settled (output_size m) (compatibility_oracle m)
            (coefficient_matrix (wavefunction m)) [] \<longrightarrow>
          settled (output_size m) (compatibility_oracle m)
            (coefficient_matrix (wavefunction m')) [])"
  using assms
proof (induction fuel arbitrary: m r)
  case 0
  then show ?case by (auto simp: shrinks_refl split: if_splits)
next
  case (Suc fuel)
  show ?case
  proof (cases "is_fully_collapsed (wavefunction m)")
    case True
    with Suc.prems show ?thesis by (auto simp: shrinks_refl)
  next
    case False
    with Suc.prems(2) obtain m1 r1 where it: "iterate m r = Some (Inr (m1, r1))"
      and rest: "run_loop fuel m1 r1 = Some (Inr (m', r'))"
      by (auto split: option.splits sum.splits)
    note st = iterate_step[OF Suc.prems(1) False it]
    from st have shape1: "has_shape (output_size m1) (coefficient_matrix (wavefunction m1))"
      by simp
    note ih = Suc.IH[OF shape1 rest]
    from st ih show ?thesis by (auto intro: shrinks_trans)
  qed
qed

section \<open>Reading the collapsed grid\<close>

lemma fcard_1_fthe_elem:
  assumes "fcard s = 1"
  shows "s = {|fthe_elem s|}"
proof -
  from assms have "card (fset s) = 1" by (simp add: fcard.rep_eq)
  then obtain x where "fset s = {x}" by (rule card_1_singletonE)
  then have "s = {|x|}" by (auto simp: fset_eq_iff)
  then show ?thesis by simp
qed

lemma collect_Inr:
  assumes "collect cs = Inr vs"
  shows "length vs = length cs \<and> (\<forall>i < length cs. cs ! i = Inr (vs ! i))"
  using assms
proof (induction cs arbitrary: vs)
  case Nil
  then show ?case by simp
next
  case (Cons c cs)
  from Cons.prems obtain v vs' where c: "c = Inr v" and r: "collect cs = Inr vs'"
    and vs: "vs = v # vs'"
    by (auto split: sum.splits)
  from Cons.IH[OF r] c vs show ?case
    by (auto simp: nth_Cons split: nat.splits)
qed

lemma range_list_nth: "k < n \<Longrightarrow> range_list (int n) ! k = int k"
  by (simp add: range_list_def)

lemma range_list_length: "length (range_list (int n)) = n"
  by (simp add: range_list_def)

lemma get_all_collapsed_cell:
  assumes shape: "has_shape sz (coefficient_matrix wfn)"
    and res: "get_all_collapsed wfn = Inr grid"
    and c: "in_grid sz c"
  shows "cell (coefficient_matrix wfn) c = {|grid ! nat (fst c) ! nat (snd c)|}"
proof -
  let ?cm = "coefficient_matrix wfn"
  define k where "k = nat (fst c)"
  define j where "j = nat (snd c)"
  from c have "0 \<le> fst c" "0 \<le> snd c" by (simp_all add: in_grid_def)
  then have "int k = fst c" "int j = snd c" by (simp_all add: k_def j_def)
  then have ceq: "c = (int k, int j)" by (cases c) simp
  from c shape have k: "k < length ?cm" by (auto simp: in_grid_def has_shape_def k_def)
  then have pos: "0 < length ?cm" by (cases ?cm) simp_all
  define n where "n = length (?cm ! 0)"
  from pos have row0: "subscript ?cm 0 = Inr (?cm ! 0)"
    by (simp add: subscript_def list_index_def)
  from has_shape_row[OF shape pos] have n: "n = nat (fst sz)" by (simp add: n_def)
  with c have j: "j < n" by (auto simp: in_grid_def j_def)
  let ?row = "\<lambda>y. collect (map (\<lambda>x. get_collapsed wfn (y, x)) (range_list (int n)))"
  from res row0 have col: "collect (map ?row (range_list (int (length ?cm)))) = Inr grid"
    by (simp add: get_all_collapsed_def Let_def n_def)
  from collect_Inr[OF col] k
  have "map ?row (range_list (int (length ?cm))) ! k = Inr (grid ! k)"
    by (simp add: range_list_length)
  with k have row: "?row (int k) = Inr (grid ! k)"
    by (simp add: range_list_length range_list_nth)
  from collect_Inr[OF row] j
  have "map (\<lambda>x. get_collapsed wfn (int k, x)) (range_list (int n)) ! j = Inr (grid ! k ! j)"
    by (simp add: range_list_length)
  with j have gc: "get_collapsed wfn c = Inr (grid ! k ! j)"
    by (simp add: range_list_length range_list_nth ceq)
  from get_in_grid[OF shape c] gc
  have "fcard (cell ?cm c) = 1" "fthe_elem (cell ?cm c) = grid ! k ! j"
    by (auto simp: get_collapsed_def split: if_splits)
  with fcard_1_fthe_elem[of "cell ?cm c"] show ?thesis by (simp add: k_def j_def)
qed

lemma mk_shape: "has_shape sz (coefficient_matrix (mk sz ws))"
  by (simp add: mk_def init_coefficient_matrix_def has_shape_def list_all_iff)

lemma mk_cell:
  "in_grid sz c \<Longrightarrow> cell (coefficient_matrix (mk sz ws)) c = fset_of_list (map fst ws)"
  by (cases c; cases sz) (auto simp: mk_def init_coefficient_matrix_def cell_def in_grid_def)

lemma Model_init_shape:
  "has_shape (output_size (Model_init sz ws orc))
     (coefficient_matrix (wavefunction (Model_init sz ws orc)))"
  by (simp add: Model_init_def mk_shape)

lemma run_Inr:
  assumes "run fuel m r = Some (Inr grid)"
  obtains m' r' where "run_loop fuel m r = Some (Inr (m', r'))"
    "get_all_collapsed (wavefunction m') = Inr grid"
  using assms by (auto simp: run_def split: option.splits sum.splits)

section \<open>The scenario of one row of two cells, evaluated\<close>

lemma xy_model_eq:
  "xy_model = \<lparr>output_size = (2, 1), compatibility_oracle = xy_oracle,
                wavefunction = xy_cells {|''X'', ''Y''|} {|''X'', ''Y''|}\<rparr>"
  by (simp add: xy_model_def Model_init_def mk_def init_coefficient_matrix_def xy_cells_def
        xy_weights_def numeral_2_eq_2)

lemma grid_2_1: "grid_co_ords (2, 1) = [(0, 0), (0, 1)]"
  by (simp add: grid_co_ords_def range_list_def numeral_2_eq_2)

lemma xy_get: "get (xy_cells a b) (0, 0) = Inr a" "get (xy_cells a b) (0, 1) = Inr b"
  by (simp_all add: get_def xy_cells_def subscript_def list_index_def)

lemma xy_set_item:
  "set_item (xy_cells a b) (0, 0) v = Inr (xy_cells v b)"
  "set_item (xy_cells a b) (0, 1) v = Inr (xy_cells a v)"
  by (simp_all add: set_item_def xy_cells_def subscript_def store_def list_index_def)

lemma xy_entropy:
  "shannon_entropy (xy_cells {|''X'', ''Y''|} b) (0, 0) = Inr (ln 2)"
  "shannon_entropy (xy_cells a {|''X'', ''Y''|}) (0, 1) = Inr (ln 2)"
  by (simp_all add: shannon_entropy_def xy_get)
     (simp_all add: xy_cells_def xy_weights_def double_range_def)

lemma ffilter_fempty: "ffilter P {||} = {||}"
  by auto

lemma ffilter_finsert:
  "ffilter P (finsert a A) = (if P a then finsert a (ffilter P A) else ffilter P A)"
  by auto

lemmas fset_eval = ffilter_fempty ffilter_finsert fcard_finsert_if fcard_fempty

lemma loop_stop:
  "while_option stack_nonempty body (Inr (wfn, [])) = Some (Inr (wfn, []))"
  "while_option stack_nonempty body (Inl e) = Some (Inl e)"
  by (subst while_option_unfold, simp add: stack_nonempty_def)+

lemma loop_turn:
  "while_option stack_nonempty body (Inr (wfn, stack @ [c]))
     = while_option stack_nonempty body (body (Inr (wfn, stack @ [c])))"
  by (subst while_option_unfold) (simp add: stack_nonempty_def)

lemma xy_dirs:
  "valid_dirs (0, 0) (2, 1) = [RIGHT]" "valid_dirs (0, 1) (2, 1) = [LEFT]"
  by (simp_all add: valid_dirs_def)

lemma xy_step_left_cell:
  "loop_body (2, 1) xy_oracle (Inr (xy_cells a b, stack @ [(0, 0)]))
     = Inr (xy_cells a (ffilter (\<lambda>t. \<exists>c |\<in>| a. check xy_oracle c t RIGHT) b),
            stack @ replicate (fcard (ffilter (\<lambda>t. \<not> (\<exists>c |\<in>| a. check xy_oracle c t RIGHT)) b))
                      (0, 1))"
  by (simp add: loop_body_def propagate_step_def xy_get xy_dirs propagate_dir_eq neighbour_def
        RIGHT_def xy_set_item)

lemma xy_step_right_cell:
  "loop_body (2, 1) xy_oracle (Inr (xy_cells a b, stack @ [(0, 1)]))
     = Inr (xy_cells (ffilter (\<lambda>t. \<exists>c |\<in>| b. check xy_oracle c t LEFT) a) b,
            stack @ replicate (fcard (ffilter (\<lambda>t. \<not> (\<exists>c |\<in>| b. check xy_oracle c t LEFT)) a))
                      (0, 0))"
  by (simp add: loop_body_def propagate_step_def xy_get xy_dirs propagate_dir_eq neighbour_def
        LEFT_def xy_set_item)

lemma xy_check:
  "check xy_oracle c t RIGHT \<longleftrightarrow> c = ''X'' \<and> t = ''Y''"
  "check xy_oracle c t LEFT \<longleftrightarrow> c = ''Y'' \<and> t = ''X''"
  by (auto simp: check_def xy_oracle_def RIGHT_def LEFT_def)

lemma xy_loop_00_X:
  "while_option stack_nonempty (loop_body (2, 1) xy_oracle)
     (Inr (xy_cells {|''X''|} {|''X'', ''Y''|}, [(0, 0)]))
   = Some (Inr (xy_cells {|''X''|} {|''Y''|}, []))"
proof -
  have "while_option stack_nonempty (loop_body (2, 1) xy_oracle)
          (Inr (xy_cells {|''X''|} {|''X'', ''Y''|}, [] @ [(0, 0)]))
        = while_option stack_nonempty (loop_body (2, 1) xy_oracle)
            (Inr (xy_cells {|''X''|} {|''Y''|}, [] @ [(0, 1)]))"
    by (subst loop_turn, subst xy_step_left_cell) (simp add: xy_check fset_eval)
  also have "\<dots> = while_option stack_nonempty (loop_body (2, 1) xy_oracle)
            (Inr (xy_cells {|''X''|} {|''Y''|}, []))"
    by (subst loop_turn, subst xy_step_right_cell) (simp add: xy_check fset_eval)
  finally show ?thesis by (simp add: loop_stop)
qed

lemma xy_loop_00_Y:
  "while_option stack_nonempty (loop_body (2, 1) xy_oracle)
     (Inr (xy_cells {|''Y''|} {|''X'', ''Y''|}, [(0, 0)]))
   = Some (Inr (xy_cells {||} {||}, []))"
proof -
  let ?w = "while_option stack_nonempty (loop_body (2, 1) xy_oracle)"
  have "?w (Inr (xy_cells {|''Y''|} {|''X'', ''Y''|}, [] @ [(0, 0)]))
        = ?w (Inr (xy_cells {|''Y''|} {||}, [(0, 1)] @ [(0, 1)]))"
    by (subst loop_turn, subst xy_step_left_cell) (simp add: xy_check fset_eval)
  also have "\<dots> = ?w (Inr (xy_cells {||} {||}, [(0, 1)] @ [(0, 0)]))"
    by (subst loop_turn, subst xy_step_right_cell) (simp add: xy_check fset_eval)
  also have "\<dots> = ?w (Inr (xy_cells {||} {||}, [] @ [(0, 1)]))"
    by (subst loop_turn, subst xy_step_left_cell) (simp add: xy_check fset_eval)
  also have "\<dots> = ?w (Inr (xy_cells {||} {||}, []))"
    by (subst loop_turn, subst xy_step_right_cell) (simp add: xy_check fset_eval)
  finally show ?thesis by (simp add: loop_stop)
qed

lemma xy_loop_01_X:
  "while_option stack_nonempty (loop_body (2, 1) xy_oracle)
     (Inr (xy_cells {|''X'', ''Y''|} {|''X''|}, [(0, 1)]))
   = Some (Inr (xy_cells {||} {||}, []))"
proof -
  let ?w = "while_option stack_nonempty (loop_body (2, 1) xy_oracle)"
  have "?w (Inr (xy_cells {|''X'', ''Y''|} {|''X''|}, [] @ [(0, 1)]))
        = ?w (Inr (xy_cells {||} {|''X''|}, [(0, 0)] @ [(0, 0)]))"
    by (subst loop_turn, subst xy_step_right_cell) (simp add: xy_check fset_eval)
  also have "\<dots> = ?w (Inr (xy_cells {||} {||}, [(0, 0)] @ [(0, 1)]))"
    by (subst loop_turn, subst xy_step_left_cell) (simp add: xy_check fset_eval)
  also have "\<dots> = ?w (Inr (xy_cells {||} {||}, [] @ [(0, 0)]))"
    by (subst loop_turn, subst xy_step_right_cell) (simp add: xy_check fset_eval)
  also have "\<dots> = ?w (Inr (xy_cells {||} {||}, []))"
    by (subst loop_turn, subst xy_step_left_cell) (simp add: xy_check fset_eval)
  finally show ?thesis by (simp add: loop_stop)
qed

lemma xy_loop_01_Y:
  "while_option stack_nonempty (loop_body (2, 1) xy_oracle)
     (Inr (xy_cells {|''X'', ''Y''|} {|''Y''|}, [(0, 1)]))
   = Some (Inr (xy_cells {|''X''|} {|''Y''|}, []))"
proof -
  let ?w = "while_option stack_nonempty (loop_body (2, 1) xy_oracle)"
  have "?w (Inr (xy_cells {|''X'', ''Y''|} {|''Y''|}, [] @ [(0, 1)]))
        = ?w (Inr (xy_cells {|''X''|} {|''Y''|}, [] @ [(0, 0)]))"
    by (subst loop_turn, subst xy_step_right_cell) (simp add: xy_check fset_eval)
  also have "\<dots> = ?w (Inr (xy_cells {|''X''|} {|''Y''|}, []))"
    by (subst loop_turn, subst xy_step_left_cell) (simp add: xy_check fset_eval)
  finally show ?thesis by (simp add: loop_stop)
qed

lemma xy_min_entropy:
  "min_entropy_co_ords xy_model r
     = Inr (if r 0 < r 1 then (0, 1) else (0, 0), advance (advance r))"
  by (simp add: min_entropy_co_ords_def xy_model_eq grid_2_1 scan_cell_def xy_get xy_entropy
        fset_eval advance_def)

lemma xy_collapse:
  "collapse (xy_cells {|''X'', ''Y''|} b) (0, 0) u
     = Inr (xy_cells {|if u * 2 - 1 < 0 then ''X'' else if u * 2 - 1 - 1 < 0 then ''Y'' else ''X''|} b)"
  "collapse (xy_cells a {|''X'', ''Y''|}) (0, 1) u
     = Inr (xy_cells a {|if u * 2 - 1 < 0 then ''X'' else if u * 2 - 1 - 1 < 0 then ''Y'' else ''X''|})"
proof -
  have w: "weights (xy_cells a' b') = [(''X'', 1), (''Y'', 1)]" for a' b'
    by (simp add: xy_cells_def xy_weights_def)
  show "collapse (xy_cells {|''X'', ''Y''|} b) (0, 0) u
     = Inr (xy_cells {|if u * 2 - 1 < 0 then ''X'' else if u * 2 - 1 - 1 < 0 then ''Y'' else ''X''|} b)"
    by (simp add: collapse_def collapse_in_def exact_arithmetic_def double_range_def xy_get w
          xy_set_item)
  show "collapse (xy_cells a {|''X'', ''Y''|}) (0, 1) u
     = Inr (xy_cells a {|if u * 2 - 1 < 0 then ''X'' else if u * 2 - 1 - 1 < 0 then ''Y'' else ''X''|})"
    by (simp add: collapse_def collapse_in_def exact_arithmetic_def double_range_def xy_get w
          xy_set_item)
qed

lemma xy_propagate:
  "propagate (xy_model\<lparr>wavefunction := xy_cells {|''X''|} {|''X'', ''Y''|}\<rparr>) (0, 0)
     = Some (Inr (xy_model\<lparr>wavefunction := xy_cells {|''X''|} {|''Y''|}\<rparr>))"
  "propagate (xy_model\<lparr>wavefunction := xy_cells {|''Y''|} {|''X'', ''Y''|}\<rparr>) (0, 0)
     = Some (Inr (xy_model\<lparr>wavefunction := xy_cells {||} {||}\<rparr>))"
  "propagate (xy_model\<lparr>wavefunction := xy_cells {|''X'', ''Y''|} {|''X''|}\<rparr>) (0, 1)
     = Some (Inr (xy_model\<lparr>wavefunction := xy_cells {||} {||}\<rparr>))"
  "propagate (xy_model\<lparr>wavefunction := xy_cells {|''X'', ''Y''|} {|''Y''|}\<rparr>) (0, 1)
     = Some (Inr (xy_model\<lparr>wavefunction := xy_cells {|''X''|} {|''Y''|}\<rparr>))"
  by (simp_all add: propagate_def xy_model_eq xy_loop_00_X xy_loop_00_Y xy_loop_01_X xy_loop_01_Y)

lemma xy_iterate:
  "iterate xy_model r =
     Some (Inr (xy_model\<lparr>wavefunction :=
                  if (r 0 < r 1) = (r 2 * 2 - 1 < 0 \<or> \<not> r 2 * 2 - 1 - 1 < 0)
                  then xy_cells {||} {||} else xy_cells {|''X''|} {|''Y''|}\<rparr>,
                advance (advance (advance r))))"
proof -
  have w: "wavefunction xy_model = xy_cells {|''X'', ''Y''|} {|''X'', ''Y''|}"
    by (simp add: xy_model_eq)
  have r2: "advance (advance r) 0 = r 2"
    by (simp add: advance_def numeral_2_eq_2)
  show ?thesis
    by (cases "r 0 < r 1"; cases "r 2 * 2 - 1 < 0"; cases "r 2 * 2 - 1 - 1 < 0")
       (simp_all add: iterate_def xy_min_entropy w xy_collapse r2 xy_propagate)
qed

lemma xy_collapsed:
  "is_fully_collapsed (xy_cells {||} {||})"
  "is_fully_collapsed (xy_cells {|''X''|} {|''Y''|})"
  "\<not> is_fully_collapsed (xy_cells {|''X'', ''Y''|} {|''X'', ''Y''|})"
  by (simp_all add: is_fully_collapsed_def xy_cells_def fset_eval)

lemma xy_get_all_collapsed:
  "get_all_collapsed (xy_cells {||} {||}) = Inl AssertionError"
  "get_all_collapsed (xy_cells {|''X''|} {|''Y''|}) = Inr [[''X'', ''Y'']]"
proof -
  have len: "subscript (coefficient_matrix (xy_cells a b)) 0 = Inr [a, b]"
    "int (length (coefficient_matrix (xy_cells a b))) = 1" for a b
    by (simp_all add: xy_cells_def subscript_def list_index_def)
  have r: "range_list 1 = [0]" "range_list 2 = [0, 1]"
    by (simp_all add: range_list_def numeral_2_eq_2)
  show "get_all_collapsed (xy_cells {||} {||}) = Inl AssertionError"
    by (simp add: get_all_collapsed_def len r get_collapsed_def xy_get fset_eval)
  show "get_all_collapsed (xy_cells {|''X''|} {|''Y''|}) = Inr [[''X'', ''Y'']]"
    by (simp add: get_all_collapsed_def len r get_collapsed_def xy_get fset_eval)
qed

lemma xy_run:
  "run (Suc fuel) xy_model r =
     Some (if (r 0 < r 1) = (r 2 * 2 - 1 < 0 \<or> \<not> r 2 * 2 - 1 - 1 < 0)
           then Inl AssertionError else Inr [[''X'', ''Y'']])"
proof -
  have w: "wavefunction xy_model = xy_cells {|''X'', ''Y''|} {|''X'', ''Y''|}"
    by (simp add: xy_model_eq)
  have stop: "run_loop fuel (xy_model\<lparr>wavefunction := w'\<rparr>) r' =
                Some (Inr (xy_model\<lparr>wavefunction := w'\<rparr>, r'))"
    if "is_fully_collapsed w'" for w' r'
    using that by (cases fuel) simp_all
  show ?thesis
    by (cases "r 0 < r 1"; cases "r 2 * 2 - 1 < 0"; cases "r 2 * 2 - 1 - 1 < 0")
       (simp_all add: run_def w xy_collapsed xy_iterate stop xy_get_all_collapsed)
qed

section \<open>Runs as sequences of \<open>collapse\<close> and \<open>constrain\<close>\<close>

lemma set_item_same:
  assumes "get wfn co = Inr s"
  shows "set_item wfn co s = Inr wfn"
proof -
  from get_Inr[OF assms] obtain k j where
    loc: "locate (coefficient_matrix wfn) co = Some (k, j)" and s: "s = coefficient_matrix wfn ! k ! j"
    by blast
  then show ?thesis by (simp add: set_item_locate)
qed

lemma set_item_twice:
  assumes "set_item wfn co v = Inr wfn1"
  shows "set_item wfn1 co v' = set_item wfn co v'"
proof -
  from set_item_Inr[OF assms] obtain k j where
    loc: "locate (coefficient_matrix wfn) co = Some (k, j)" and
    w: "wfn1 = wfn\<lparr>coefficient_matrix :=
                 (coefficient_matrix wfn)[k := (coefficient_matrix wfn ! k)[j := v]]\<rparr>"
    by blast
  from locate_less[OF loc] have "k < length (coefficient_matrix wfn)" by simp
  then show ?thesis by (simp add: set_item_locate w locate_update loc)
qed

lemma ops_reach_trans:
  assumes "ops_reach b c" "ops_reach a b"
  shows "ops_reach a c"
  using assms
proof (induction rule: ops_reach.induct)
  case (ops_none wfn)
  then show ?case .
next
  case (ops_collapse wfn wfn1 co_ords u wfn2)
  then show ?case by (blast intro: ops_reach.ops_collapse)
next
  case (ops_constrain wfn wfn1 co_ords tile wfn2)
  then show ?case by (blast intro: ops_reach.ops_constrain)
qed

lemma remove_tiles_ops_reach:
  assumes "get wfn co = Inr s"
  shows "B |\<subseteq>| s \<Longrightarrow> set_item wfn co (s |-| B) = Inr wfn' \<Longrightarrow> ops_reach wfn wfn'"
proof (induction B arbitrary: wfn')
  case empty
  with set_item_same[OF assms] have "wfn' = wfn" by simp
  then show ?case by (simp add: ops_none)
next
  case (insert b B)
  from set_item_succeeds[OF assms] obtain wfn1 where
    s1: "set_item wfn co (s |-| B) = Inr wfn1" by blast
  from insert.prems(1) have sub: "B |\<subseteq>| s" and b: "b |\<in>| s" by auto
  from insert.IH[OF sub s1] have r1: "ops_reach wfn wfn1" .
  have g1: "get wfn1 co = Inr (s |-| B)" using s1 by (rule set_item_get_same)
  have eq: "s |-| B |-| {|b|} = s |-| finsert b B" by auto
  from b insert.hyps have "b |\<in>| s |-| B" by simp
  with g1 have "constrain wfn1 co b = set_item wfn1 co (s |-| B |-| {|b|})"
    by (simp add: constrain_def)
  also have "\<dots> = set_item wfn co (s |-| finsert b B)"
    unfolding eq using s1 by (rule set_item_twice)
  finally have "constrain wfn1 co b = Inr wfn'" using insert.prems(2) by simp
  with r1 show ?case by (rule ops_constrain)
qed

lemma propagate_dir_ops_reach:
  assumes "propagate_dir orc cur tiles d (wfn, stack) = Inr (wfn', stack')"
  shows "ops_reach wfn wfn'"
proof -
  from assms obtain other_tiles impossible where
    g: "get wfn (neighbour cur d) = Inr other_tiles" and
    i: "impossible = ffilter (\<lambda>other_tile. \<not> (\<exists>cur_tile |\<in>| tiles. check orc cur_tile other_tile d)) other_tiles" and
    s: "set_item wfn (neighbour cur d) (other_tiles |-| impossible) = Inr wfn'"
    by (rule propagate_dir_Inr)
  from i have "impossible |\<subseteq>| other_tiles" by auto
  with g show ?thesis using s by (rule remove_tiles_ops_reach)
qed

lemma for_each_dirs_ops_reach:
  assumes "for_each (propagate_dir orc cur tiles) ds (wfn, stack) = Inr (wfn', stack')"
  shows "ops_reach wfn wfn'"
proof -
  let ?I = "\<lambda>(D :: Direction set) (w, st :: Coordinates list). ops_reach wfn w"
  have "?I ({} \<union> set ds) (wfn', stack')"
  proof (rule for_each_partial[OF assms, where I = ?I])
    show "?I {} (wfn, stack)" by (simp add: ops_none)
  next
    fix x D s s'
    assume i: "?I D s" and b: "propagate_dir orc cur tiles x s = Inr s'"
    obtain w1 st1 w2 st2 where s: "s = (w1, st1)" "s' = (w2, st2)" by (cases s; cases s')
    from b have "ops_reach w1 w2" unfolding s by (rule propagate_dir_ops_reach)
    with i s show "?I (insert x D) s'" by (auto intro: ops_reach_trans)
  qed
  then show ?thesis by simp
qed

lemma propagate_step_ops_reach:
  assumes "propagate_step sz orc (wfn, stack) = Inr (wfn', stack')"
  shows "ops_reach wfn wfn'"
proof -
  from assms obtain tiles where
    "for_each (propagate_dir orc (last stack) tiles) (valid_dirs (last stack) sz)
       (wfn, butlast stack) = Inr (wfn', stack')"
    by (auto simp: propagate_step_def Let_def split: sum.splits)
  then show ?thesis by (rule for_each_dirs_ops_reach)
qed

lemma propagate_ops_reach:
  assumes "propagate m co_ords = Some (Inr m')"
  shows "ops_reach (wavefunction m) (wavefunction m')"
proof -
  let ?P = "\<lambda>s. case s of Inl (e :: error) \<Rightarrow> True
     | Inr (w, st :: Coordinates list) \<Rightarrow> ops_reach (wavefunction m) w"
  from assms obtain wfn' stack' where
    w: "while_option stack_nonempty (loop_body (output_size m) (compatibility_oracle m))
          (Inr (wavefunction m, [co_ords])) = Some (Inr (wfn', stack'))"
    and m': "m' = m\<lparr>wavefunction := wfn'\<rparr>"
    by (auto simp: propagate_def split: option.splits sum.splits prod.splits)
  have "?P (Inr (wfn', stack'))"
  proof (rule while_option_rule[OF _ w, where P = ?P])
    show "?P (Inr (wavefunction m, [co_ords]))" by (simp add: ops_none)
  next
    fix s assume "?P s" "stack_nonempty s"
    then show "?P (loop_body (output_size m) (compatibility_oracle m) s)"
      by (auto simp: loop_body_def split: sum.splits dest!: propagate_step_ops_reach
               intro: ops_reach_trans)
  qed
  with m' show ?thesis by simp
qed

lemma iterate_ops_reach:
  assumes "iterate m r = Some (Inr (m', r'))"
  shows "ops_reach (wavefunction m) (wavefunction m')"
proof -
  from assms obtain co r1 wfn1 where
    cl: "collapse (wavefunction m) co (r1 0) = Inr wfn1" and
    pr: "propagate (m\<lparr>wavefunction := wfn1\<rparr>) co = Some (Inr m')"
    by (auto simp: iterate_def split: sum.splits option.splits prod.splits)
  from ops_none cl have "ops_reach (wavefunction m) wfn1" by (rule ops_collapse)
  with propagate_ops_reach[OF pr] show ?thesis by (auto intro: ops_reach_trans)
qed

lemma run_loop_ops_reach:
  assumes "run_loop fuel m r = Some (Inr (m', r'))"
  shows "ops_reach (wavefunction m) (wavefunction m')"
  using assms
proof (induction fuel arbitrary: m r)
  case 0
  then show ?case by (auto simp: ops_none split: if_splits)
next
  case (Suc fuel)
  show ?case
  proof (cases "is_fully_collapsed (wavefunction m)")
    case True
    with Suc.prems show ?thesis by (auto simp: ops_none)
  next
    case False
    with Suc.prems obtain m1 r1 where it: "iterate m r = Some (Inr (m1, r1))"
      and rest: "run_loop fuel m1 r1 = Some (Inr (m', r'))"
      by (auto split: option.splits sum.splits)
    from Suc.IH[OF rest] iterate_ops_reach[OF it] show ?thesis by (rule ops_reach_trans)
  qed
qed

section \<open>Tiles and weights\<close>

lemma within_universe_get:
  assumes "within_universe wfn" "get wfn co = Inr options"
  shows "options |\<subseteq>| fset_of_list (map fst (weights wfn))"
proof -
  from get_Inr[OF assms(2)] obtain k j where
    loc: "locate (coefficient_matrix wfn) co = Some (k, j)"
    and o: "options = coefficient_matrix wfn ! k ! j" by blast
  from locate_less[OF loc] assms(1) o show ?thesis
    by (simp add: within_universe_def list_all_length)
qed

lemma within_universe_shrinks:
  assumes "within_universe wfn" "shrinks (coefficient_matrix wfn') (coefficient_matrix wfn)"
    "weights wfn' = weights wfn"
  shows "within_universe wfn'"
proof -
  let ?U = "fset_of_list (map fst (weights wfn))"
  let ?cm = "coefficient_matrix wfn" and ?cm' = "coefficient_matrix wfn'"
  have "?cm' ! i ! j |\<subseteq>| ?U" if i: "i < length ?cm'" and j: "j < length (?cm' ! i)" for i j
  proof -
    from assms(2) i have li: "i < length ?cm" and row: "list_all2 (\<lambda>sq' sq. sq' |\<subseteq>| sq) (?cm' ! i) (?cm ! i)"
      by (simp_all add: shrinks_def list_all2_conv_all_nth)
    from row j have lj: "j < length (?cm ! i)" and sub: "?cm' ! i ! j |\<subseteq>| ?cm ! i ! j"
      by (simp_all add: list_all2_conv_all_nth)
    from assms(1) li lj have "?cm ! i ! j |\<subseteq>| ?U"
      by (simp add: within_universe_def list_all_length)
    with sub show ?thesis by (rule order_trans)
  qed
  with assms(3) show ?thesis by (simp add: within_universe_def list_all_length)
qed

lemma ops_reach_weights: "ops_reach wfn wfn' \<Longrightarrow> weights wfn' = weights wfn"
proof (induction rule: ops_reach.induct)
  case (ops_none wfn)
  show ?case by simp
next
  case (ops_collapse wfn wfn1 co_ords u wfn2)
  from ops_collapse(2) have "weights wfn2 = weights wfn1"
    by (elim collapse_Inr) (rule set_item_weights)
  with ops_collapse(3) show ?case by simp
next
  case (ops_constrain wfn wfn1 co_ords tile wfn2)
  from ops_constrain(2) have "weights wfn2 = weights wfn1"
    by (auto simp: constrain_def split: sum.splits if_splits dest: set_item_weights)
  with ops_constrain(3) show ?case by simp
qed

lemma mk_within_universe: "within_universe (mk sz ws)"
  by (simp add: within_universe_def mk_def init_coefficient_matrix_def list_all_iff)

lemma filtered_covers:
  assumes "options |\<subseteq>| fset_of_list (map fst ws)"
  shows "fset_of_list (map fst (filter (\<lambda>(tile, weight). tile |\<in>| options) ws)) = options"
proof (rule fset_eqI)
  fix t
  let ?ftw = "filter (\<lambda>(tile, weight). tile |\<in>| options) ws"
  show "t |\<in>| fset_of_list (map fst ?ftw) \<longleftrightarrow> t |\<in>| options"
  proof
    assume "t |\<in>| fset_of_list (map fst ?ftw)"
    then show "t |\<in>| options" by (auto simp: fset_of_list.rep_eq)
  next
    assume t: "t |\<in>| options"
    with assms have "t |\<in>| fset_of_list (map fst ws)" by blast
    then have "t \<in> fst ` set ws" by (simp add: fset_of_list.rep_eq)
    then obtain w where "(t, w) \<in> set ws" by auto
    with t have "(t, w) \<in> set ?ftw" by simp
    then have "fst (t, w) \<in> fst ` set ?ftw" by (rule imageI)
    then have "t \<in> set (map fst ?ftw)" by (simp only: set_map fst_conv)
    then show "t |\<in>| fset_of_list (map fst ?ftw)" by (simp only: fset_of_list.rep_eq)
  qed
qed

lemma xy_run_loop:
  "run_loop 2 xy_model (constant_draws 0)
     = Some (Inr (xy_model\<lparr>wavefunction := xy_cells {|''X''|} {|''Y''|}\<rparr>,
                  advance (advance (advance (constant_draws 0)))))"
proof -
  have w: "wavefunction xy_model = xy_cells {|''X'', ''Y''|} {|''X'', ''Y''|}"
    by (simp add: xy_model_eq)
  have "run_loop (Suc (Suc 0)) xy_model (constant_draws 0)
     = Some (Inr (xy_model\<lparr>wavefunction := xy_cells {|''X''|} {|''Y''|}\<rparr>,
                  advance (advance (advance (constant_draws 0)))))"
    by (simp add: w xy_collapsed xy_iterate constant_draws_def)
  then show ?thesis by (simp add: numeral_2_eq_2)
qed

section \<open>The innermost loop of \<open>propagate\<close>\<close>

lemma constrain_impossible_closed_form:
  assumes "get wfn co = Inr s" "distinct ts" "set ts \<subseteq> fset s"
  shows "constrain_impossible orc tiles d co ts (wfn, stack) =
           (case set_item wfn co
                   (s |-| ffilter (\<lambda>t. \<not> (\<exists>a |\<in>| tiles. check orc a t d)) (fset_of_list ts)) of
              Inl e \<Rightarrow> Inl e
            | Inr wfn' \<Rightarrow>
                Inr (wfn', stack @ replicate
                      (fcard (ffilter (\<lambda>t. \<not> (\<exists>a |\<in>| tiles. check orc a t d)) (fset_of_list ts)))
                      co))"
  using assms
proof (induction ts arbitrary: wfn stack s)
  case Nil
  then show ?case by (simp add: ffilter_fempty fcard_fempty set_item_same)
next
  case (Cons t ts)
  let ?bad = "\<lambda>xs. ffilter (\<lambda>t. \<not> (\<exists>a |\<in>| tiles. check orc a t d)) (fset_of_list xs)"
  from Cons.prems have dts: "distinct ts" and tn: "t \<notin> set ts" and ts: "set ts \<subseteq> fset s"
    and t: "t |\<in>| s" by auto
  show ?case
  proof (cases "\<exists>a |\<in>| tiles. check orc a t d")
    case True
    then have "?bad (t # ts) = ?bad ts" by (auto simp: fset_of_list.rep_eq)
    have "constrain_impossible orc tiles d co (t # ts) (wfn, stack)
            = constrain_impossible orc tiles d co ts (wfn, stack)"
      using True by simp
    also note Cons.IH[OF Cons.prems(1) dts ts, of stack]
    finally show ?thesis unfolding \<open>?bad (t # ts) = ?bad ts\<close> .
  next
    case False
    from set_item_succeeds[OF Cons.prems(1)] obtain wfn1 where
      s1: "set_item wfn co (s |-| {|t|}) = Inr wfn1" by blast
    with t Cons.prems(1) have c: "constrain wfn co t = Inr wfn1" by (simp add: constrain_def)
    have g1: "get wfn1 co = Inr (s |-| {|t|})" using s1 by (rule set_item_get_same)
    from ts tn have ts1: "set ts \<subseteq> fset (s |-| {|t|})" by auto
    from False have bad: "?bad (t # ts) = finsert t (?bad ts)" by (auto simp: fset_of_list.rep_eq)
    from tn have "t |\<notin>| ?bad ts" by (simp add: fset_of_list.rep_eq)
    with bad have card: "fcard (?bad (t # ts)) = Suc (fcard (?bad ts))"
      by (simp add: fcard_finsert_if)
    have diff: "s |-| {|t|} |-| ?bad ts = s |-| ?bad (t # ts)" unfolding bad by auto
    have "constrain_impossible orc tiles d co (t # ts) (wfn, stack)
            = constrain_impossible orc tiles d co ts (wfn1, stack @ [co])"
      using False c by simp
    also have "\<dots> = (case set_item wfn1 co (s |-| {|t|} |-| ?bad ts) of
                         Inl e \<Rightarrow> Inl e
                       | Inr wfn' \<Rightarrow> Inr (wfn', (stack @ [co]) @ replicate (fcard (?bad ts)) co))"
      by (rule Cons.IH[OF g1 dts ts1])
    also have "set_item wfn1 co (s |-| {|t|} |-| ?bad ts) = set_item wfn co (s |-| ?bad (t # ts))"
      unfolding diff using s1 by (rule set_item_twice)
    also have "(stack @ [co]) @ replicate (fcard (?bad ts)) co
                 = stack @ replicate (fcard (?bad (t # ts))) co"
      unfolding card by (simp add: replicate_append_same)
    finally show ?thesis .
  qed
qed

lemma propagate_dir_inner_loop:
  assumes "get wfn (neighbour cur_co_ords d) = Inr other_tiles"
    and "distinct ts" "set ts = fset other_tiles"
  shows "constrain_impossible orc cur_possible_tiles d (neighbour cur_co_ords d) ts (wfn, stack)
           = propagate_dir orc cur_co_ords cur_possible_tiles d (wfn, stack)"
proof -
  from assms(3) have e: "fset_of_list ts = other_tiles"
    by (auto simp: fset_eq_iff fset_of_list.rep_eq)
  from assms(3) have sub: "set ts \<subseteq> fset other_tiles" by simp
  have p: "propagate_dir orc cur_co_ords cur_possible_tiles d (wfn, stack) =
     (case set_item wfn (neighbour cur_co_ords d)
             (other_tiles |-|
              ffilter (\<lambda>t. \<not> (\<exists>a |\<in>| cur_possible_tiles. check orc a t d)) other_tiles) of
        Inl e \<Rightarrow> Inl e
      | Inr wfn' \<Rightarrow>
          Inr (wfn', stack @ replicate
                (fcard (ffilter (\<lambda>t. \<not> (\<exists>a |\<in>| cur_possible_tiles. check orc a t d)) other_tiles))
                (neighbour cur_co_ords d)))"
    by (simp only: propagate_dir_def Let_def prod.case neighbour_def
          assms(1)[unfolded neighbour_def] sum.case)
  show ?thesis
    unfolding p constrain_impossible_closed_form[OF assms(1,2) sub] e ..
qed

section \<open>The properties claimed for the solver\<close>

subsection \<open>C1: local consistency of the grid that \<open>run\<close> returns\<close>

text \<open>
  With a single tile in the weights every cell holds one tile from the start:
  \<open>is_fully_collapsed\<close> holds at once, \<open>run\<close> returns without any call of
  \<open>propagate\<close>, and no possibility set ever becomes empty.  The grid then need not
  respect the compatibility relation: here the only tile \<open>X\<close> may not stand to the
  right of itself, and \<open>run\<close> returns \<open>X\<close> next to \<open>X\<close>.
\<close>

theorem run_single_tile_counterexample:
  "run 2 single_tile_model (constant_draws 0) = Some (Inr [[''X'', ''X'']]) \<and>
   in_grid (2, 1) (0, 0) \<and> RIGHT \<in> set (valid_dirs (0, 0) (2, 1)) \<and>
   \<not> check xy_oracle ([[''X'', ''X'']] ! nat 0 ! nat 0)
        ([[''X'', ''X'']] ! nat (0 + fst RIGHT) ! nat (0 + snd RIGHT)) RIGHT"
proof -
  let ?w = "\<lparr>coefficient_matrix = [[{|''X''|}, {|''X''|}]], weights = [(''X'', 1)]\<rparr>"
  have w: "wavefunction single_tile_model = ?w"
    by (simp add: single_tile_model_def Model_init_def mk_def init_coefficient_matrix_def
          numeral_2_eq_2)
  have fc: "is_fully_collapsed ?w" by (simp add: is_fully_collapsed_def fset_eval)
  have r: "range_list 1 = [0]" "range_list 2 = [0, 1]"
    by (simp_all add: range_list_def numeral_2_eq_2)
  have g: "get ?w (0, 0) = Inr {|''X''|}" "get ?w (0, 1) = Inr {|''X''|}"
    by (simp_all add: get_def subscript_def list_index_def)
  have s: "subscript [[{|''X''|}, {|''X''|}]] 0 = Inr [{|''X''|}, {|''X''|} :: Coefficients]"
    by (simp add: subscript_def list_index_def)
  have gac: "get_all_collapsed ?w = Inr [[''X'', ''X'']]"
    by (simp add: get_all_collapsed_def s r get_collapsed_def g fset_eval)
  have "run (Suc (Suc 0)) single_tile_model (constant_draws 0) = Some (Inr [[''X'', ''X'']])"
    by (simp add: run_def w fc gac)
  then have "run 2 single_tile_model (constant_draws 0) = Some (Inr [[''X'', ''X'']])"
    by (simp add: numeral_2_eq_2)
  moreover have "\<not> check xy_oracle ''X'' ''X'' RIGHT" by (simp add: xy_check)
  moreover have "fst RIGHT = 0" "snd RIGHT = 1" by (simp_all add: RIGHT_def)
  ultimately show ?thesis
    by (simp add: in_grid_def xy_dirs)
qed

text \<open>
  C1, amended: when the weights hold at least two tiles, every pair of adjacent cells of
  a grid that \<open>run\<close> returns is compatible: for a location \<open>(y, x)\<close> of the grid and
  a valid direction \<open>d\<close>, the tile at \<open>(y, x)\<close>, the tile at the neighbour in
  direction \<open>d\<close> and \<open>d\<close> form a triple of the compatibility relation.  A run that
  raises returns no grid.
\<close>

theorem run_locally_consistent:
  assumes two: "2 \<le> fcard (fset_of_list (map fst ws))"
    and res: "run fuel (Model_init (width, height) ws orc) r = Some (Inr grid)"
    and c: "in_grid (width, height) (y, x)"
    and d: "d \<in> set (valid_dirs (y, x) (width, height))"
  shows "check orc (grid ! nat y ! nat x) (grid ! nat (y + fst d) ! nat (x + snd d)) d"
proof -
  let ?sz = "(width, height)"
  let ?m = "Model_init ?sz ws orc"
  let ?cm0 = "coefficient_matrix (wavefunction ?m)"
  have os: "output_size ?m = ?sz" and co: "compatibility_oracle ?m = orc"
    by (simp_all add: Model_init_def)
  have shape0: "has_shape (output_size ?m) ?cm0" by (rule Model_init_shape)
  have setl0: "settled ?sz orc ?cm0 []"
    unfolding settled_def
  proof (intro ballI impI)
    fix c' assume "c' \<in> set (grid_co_ords ?sz)" "fcard (cell ?cm0 c') \<le> 1"
    with two show "supports ?sz orc ?cm0 c'"
      by (simp add: in_grid_co_ords Model_init_def mk_cell)
  qed
  from res obtain m' r' where loop: "run_loop fuel ?m r = Some (Inr (m', r'))"
    and g: "get_all_collapsed (wavefunction m') = Inr grid"
    by (rule run_Inr)
  let ?cm' = "coefficient_matrix (wavefunction m')"
  from run_loop_result[OF shape0 loop] setl0 os co
  have shape': "has_shape ?sz ?cm'" and setl': "settled ?sz orc ?cm' []"
    by simp_all
  from valid_dirs_neighbour[OF c d] have nb: "in_grid ?sz (neighbour (y, x) d)" by simp
  from get_all_collapsed_cell[OF shape' g c]
  have cc: "cell ?cm' (y, x) = {|grid ! nat y ! nat x|}" by simp
  from get_all_collapsed_cell[OF shape' g nb]
  have cn: "cell ?cm' (neighbour (y, x) d) = {|grid ! nat (y + fst d) ! nat (x + snd d)|}"
    by (simp add: neighbour_def)
  from cc have "fcard (cell ?cm' (y, x)) \<le> 1" by (simp add: fcard_finsert_if fcard_fempty)
  with setl' c have "supports ?sz orc ?cm' (y, x)"
    by (simp add: settled_def in_grid_co_ords)
  with d cc cn show ?thesis by (auto simp: supports_def)
qed

theorem run_locally_consistent_witness:
  "2 \<le> fcard (fset_of_list (map fst xy_weights)) \<and>
   run 2 (Model_init (2, 1) xy_weights xy_oracle) (constant_draws 0)
     = Some (Inr [[''X'', ''Y'']]) \<and>
   in_grid (2, 1) (0, 0) \<and> RIGHT \<in> set (valid_dirs (0, 0) (2, 1)) \<and>
   check xy_oracle ([[''X'', ''Y'']] ! nat 0 ! nat 0)
     ([[''X'', ''Y'']] ! nat (0 + fst RIGHT) ! nat (0 + snd RIGHT)) RIGHT"
proof -
  have two: "2 \<le> fcard (fset_of_list (map fst xy_weights))"
    by (simp add: xy_weights_def fset_eval)
  have "run (Suc (Suc 0)) xy_model (constant_draws 0) = Some (Inr [[''X'', ''Y'']])"
    by (simp add: xy_run constant_draws_def)
  then have res: "run 2 (Model_init (2, 1) xy_weights xy_oracle) (constant_draws 0)
                    = Some (Inr [[''X'', ''Y'']])"
    by (simp add: numeral_2_eq_2 xy_model_def)
  have c: "in_grid (2, 1) (0, 0)" by (simp add: in_grid_def)
  have d: "RIGHT \<in> set (valid_dirs (0, 0) (2, 1))" by (simp add: xy_dirs)
  from two res c d run_locally_consistent[OF two res c d] show ?thesis by blast
qed

subsection \<open>C2: \<open>is_fully_collapsed\<close>\<close>

text \<open>
  A wavefunction whose two cells are empty, the state that a contradiction leaves behind,
  is fully collapsed for \<open>is_fully_collapsed\<close>, although no cell holds exactly one
  tile.
\<close>

theorem is_fully_collapsed_counterexample:
  "\<not> (is_fully_collapsed (xy_cells {||} {||}) \<longleftrightarrow> every_cell_has_one_tile (xy_cells {||} {||}))"
  by (simp add: is_fully_collapsed_def every_cell_has_one_tile_def xy_cells_def fset_eval)

text \<open>
  C2, amended: \<open>is_fully_collapsed\<close> returns true if and only if every cell of the
  matrix holds at most one tile; an empty cell counts as collapsed.
\<close>

theorem is_fully_collapsed_at_most_one:
  "is_fully_collapsed wfn \<longleftrightarrow>
     (\<forall>row \<in> set (coefficient_matrix wfn). \<forall>sq \<in> set row. fcard sq \<le> 1)"
  by (auto simp: is_fully_collapsed_def list_all_iff not_less)

theorem is_fully_collapsed_at_most_one_witness:
  "[{||}, {||}] \<in> set (coefficient_matrix (xy_cells {||} {||})) \<and>
   ({||} :: Coefficients) \<in> set [{||}, {||}] \<and>
   fcard ({||} :: Coefficients) \<le> 1 \<and>
   is_fully_collapsed (xy_cells {||} {||}) \<and>
   [{|''X'', ''Y''|}, {|''Y''|}] \<in> set (coefficient_matrix (xy_cells {|''X'', ''Y''|} {|''Y''|})) \<and>
   \<not> is_fully_collapsed (xy_cells {|''X'', ''Y''|} {|''Y''|})"
  using is_fully_collapsed_at_most_one[of "xy_cells {||} {||}"]
    is_fully_collapsed_at_most_one[of "xy_cells {|''X'', ''Y''|} {|''Y''|}"]
  by (simp add: xy_cells_def fset_eval)

subsection \<open>C3: possibility sets only shrink\<close>

text \<open>
  C3: over any sequence of successful \<open>collapse\<close> and \<open>constrain\<close> calls every
  cell of the resulting matrix is a subset of the cell it started from, so its size does
  not grow and no tile comes back; and the wavefunction that the loop of \<open>run\<close>
  ends with comes from the initial one by such a sequence of calls.
\<close>

theorem possibility_sets_only_shrink:
  "(ops_reach wfn wfn' \<longrightarrow>
      shrinks (coefficient_matrix wfn') (coefficient_matrix wfn) \<and>
      sizes_le (coefficient_matrix wfn') (coefficient_matrix wfn)) \<and>
   (run_loop fuel m r = Some (Inr (m', r')) \<longrightarrow>
      ops_reach (wavefunction m) (wavefunction m'))"
proof -
  have "sizes_le (coefficient_matrix wfn') (coefficient_matrix wfn)" if "ops_reach wfn wfn'"
    using shrinks_fcard[OF ops_reach_shrinks[OF that]] by (simp add: sizes_le_def)
  then show ?thesis by (auto dest: ops_reach_shrinks run_loop_ops_reach)
qed

theorem possibility_sets_only_shrink_witness:
  "ops_reach (xy_cells {|''X'', ''Y''|} {|''X'', ''Y''|}) (xy_cells {|''X''|} {|''Y''|}) \<and>
   shrinks (coefficient_matrix (xy_cells {|''X''|} {|''Y''|}))
     (coefficient_matrix (xy_cells {|''X'', ''Y''|} {|''X'', ''Y''|})) \<and>
   sizes_le (coefficient_matrix (xy_cells {|''X''|} {|''Y''|}))
     (coefficient_matrix (xy_cells {|''X'', ''Y''|} {|''X'', ''Y''|})) \<and>
   run_loop 2 xy_model (constant_draws 0)
     = Some (Inr (xy_model\<lparr>wavefunction := xy_cells {|''X''|} {|''Y''|}\<rparr>,
                  advance (advance (advance (constant_draws 0))))) \<and>
   ops_reach (wavefunction xy_model) (xy_cells {|''X''|} {|''Y''|})"
proof -
  let ?w0 = "xy_cells {|''X'', ''Y''|} {|''X'', ''Y''|}"
  let ?w1 = "xy_cells {|''X''|} {|''X'', ''Y''|}"
  let ?w2 = "xy_cells {|''X''|} {|''Y''|}"
  have c1: "collapse ?w0 (0, 0) 0 = Inr ?w1" by (simp add: xy_collapse)
  have c2: "constrain ?w1 (0, 1) ''X'' = Inr ?w2"
    by (simp add: constrain_def xy_get xy_set_item)
  have r: "ops_reach ?w0 ?w2"
    by (rule ops_constrain[OF ops_collapse[OF ops_none c1] c2])
  from possibility_sets_only_shrink[of ?w0 ?w2] r
  have s: "shrinks (coefficient_matrix ?w2) (coefficient_matrix ?w0)"
    "sizes_le (coefficient_matrix ?w2) (coefficient_matrix ?w0)" by simp_all
  from possibility_sets_only_shrink[of _ _ 2 xy_model "constant_draws 0"
         "xy_model\<lparr>wavefunction := ?w2\<rparr>" "advance (advance (advance (constant_draws 0)))"]
    xy_run_loop
  have "ops_reach (wavefunction xy_model) ?w2" by simp
  with r s xy_run_loop show ?thesis by simp
qed

subsection \<open>C4: termination\<close>

text \<open>
  C4: \<open>propagate\<close> returns on every model and location (the cells are finite sets
  and the grid a finite list of rows), and on a model built by the constructor the loop
  of \<open>run\<close> ends within as many calls of \<open>iterate\<close> as the grid has cells: with
  that bound \<open>run\<close> returns a grid or raises.
\<close>

theorem propagate_and_run_terminate:
  "propagate m co_ords \<noteq> None \<and>
   run_loop (nat width * nat height) (Model_init (width, height) ws orc) r \<noteq> None \<and>
   run (nat width * nat height) (Model_init (width, height) ws orc) r \<noteq> None"
proof -
  let ?m = "Model_init (width, height) ws orc"
  have shape: "has_shape (output_size ?m) (coefficient_matrix (wavefunction ?m))"
    by (rule Model_init_shape)
  from uncollapsed_bound[OF shape]
  have "uncollapsed (coefficient_matrix (wavefunction ?m)) \<le> nat width * nat height"
    by (simp add: Model_init_def)
  with shape have "run_loop (nat width * nat height) ?m r \<noteq> None"
    by (rule run_loop_enough_fuel)
  then show ?thesis
    by (auto simp: run_def propagate_terminates split: option.splits sum.splits)
qed

theorem propagate_and_run_terminate_witness:
  "propagate xy_model (0, 0) \<noteq> None \<and>
   run_loop (nat 2 * nat 1) xy_model (constant_draws 0) \<noteq> None \<and>
   run (nat 2 * nat 1) xy_model (constant_draws 0) = Some (Inr [[''X'', ''Y'']])"
proof -
  have "run (Suc (Suc 0)) xy_model (constant_draws 0) = Some (Inr [[''X'', ''Y'']])"
    by (simp add: xy_run constant_draws_def)
  then have "run (nat 2 * nat 1) xy_model (constant_draws 0) = Some (Inr [[''X'', ''Y'']])"
    by (simp add: numeral_2_eq_2)
  with propagate_and_run_terminate[of xy_model "(0, 0)" 2 1 xy_weights xy_oracle "constant_draws 0"]
  show ?thesis by (simp add: xy_model_def)
qed

subsection \<open>C5: \<open>collapse\<close>\<close>




subsection \<open>C6: \<open>min_entropy_co_ords\<close>\<close>

text \<open>
  On a grid whose cells all hold exactly one tile \<open>min_entropy_co_ords\<close> returns the
  preset \<open>(0, 0)\<close>, the location of a cell of size 1.
\<close>

theorem min_entropy_co_ords_counterexample:
  "min_entropy_co_ords (xy_model\<lparr>wavefunction := xy_cells {|''X''|} {|''Y''|}\<rparr>) (constant_draws 0)
     = Inr ((0, 0), constant_draws 0) \<and>
   get (xy_cells {|''X''|} {|''Y''|}) (0, 0) = Inr {|''X''|} \<and>
   fcard {|''X''|} = 1"
  by (simp add: min_entropy_co_ords_def xy_model_eq grid_2_1 scan_cell_def xy_get fset_eval)

text \<open>
  C6, amended: when some location of the grid holds a set of other than one tile,
  \<open>min_entropy_co_ords\<close> never returns the location of a cell of size 1: whatever it
  returns then is a location of the grid that holds at least two tiles, and when some
  location of the grid holds no tile it raises and returns nothing.  It does return when
  every location of the grid holds either exactly one tile or a non-empty set of tiles
  whose weights are positive and, like their sum, convert to a double.  When every
  location of the grid holds exactly one tile, it returns the preset \<open>(0, 0)\<close> and
  draws no number.
\<close>

theorem min_entropy_co_ords_result:
  "(min_entropy_co_ords m r = Inr (co_ords, r') \<longrightarrow>
      (\<exists>c \<in> set (grid_co_ords (output_size m)). \<forall>options.
          get (wavefunction m) c = Inr options \<longrightarrow> fcard options \<noteq> 1) \<longrightarrow>
      co_ords \<in> set (grid_co_ords (output_size m)) \<and>
      (\<exists>options. get (wavefunction m) co_ords = Inr options \<and> 2 \<le> fcard options)) \<and>
   ((\<exists>c \<in> set (grid_co_ords (output_size m)). get (wavefunction m) c = Inr {||}) \<longrightarrow>
      (\<exists>e. min_entropy_co_ords m r = Inl e)) \<and>
   ((\<forall>c \<in> set (grid_co_ords (output_size m)). \<exists>options.
        get (wavefunction m) c = Inr options \<and>
        (fcard options = 1 \<or> entropy_defined (wavefunction m) options)) \<longrightarrow>
      (\<exists>co r''. min_entropy_co_ords m r = Inr (co, r''))) \<and>
   ((\<forall>c \<in> set (grid_co_ords (output_size m)). \<exists>options.
        get (wavefunction m) c = Inr options \<and> fcard options = 1) \<longrightarrow>
      min_entropy_co_ords m r = Inr ((0, 0), r))"
proof (intro conjI impI)
  assume res: "min_entropy_co_ords m r = Inr (co_ords, r')"
    and some: "\<exists>c \<in> set (grid_co_ords (output_size m)). \<forall>options.
      get (wavefunction m) c = Inr options \<longrightarrow> fcard options \<noteq> 1"
  from min_entropy_co_ords_inv[OF res] obtain mn where
    inv: "scan_inv (wavefunction m) (set (grid_co_ords (output_size m))) (mn, co_ords, r')"
    by blast
  from inv some obtain least where "mn = Some least"
    by (cases mn) (auto simp: scan_inv_def)
  with inv have co: "co_ords \<in> set (grid_co_ords (output_size m))" and
    ex: "\<exists>options. get (wavefunction m) co_ords = Inr options \<and> fcard options \<noteq> 1 \<and>
           options \<noteq> {||}"
    by (simp_all add: scan_inv_def)
  from ex obtain options where o: "get (wavefunction m) co_ords = Inr options"
    "fcard options \<noteq> 1" "options \<noteq> {||}" by blast
  from o(3) have "fcard options \<noteq> 0" by (simp add: fcard_0_eq)
  with o(2) have "2 \<le> fcard options" by arith
  with o(1) have two: "\<exists>options. get (wavefunction m) co_ords = Inr options \<and> 2 \<le> fcard options"
    by blast
  from co show "co_ords \<in> set (grid_co_ords (output_size m))" .
  from two show "\<exists>options. get (wavefunction m) co_ords = Inr options \<and> 2 \<le> fcard options" .
next
  assume "\<exists>c \<in> set (grid_co_ords (output_size m)). get (wavefunction m) c = Inr {||}"
  then obtain c where c: "c \<in> set (grid_co_ords (output_size m))"
    "get (wavefunction m) c = Inr {||}" by blast
  from scan_cell_empty[OF c(2)] have "\<forall>s. \<exists>e. scan_cell (wavefunction m) c s = Inl e"
    by blast
  with c(1) have "\<exists>c \<in> set (grid_co_ords (output_size m)).
      \<forall>s. \<exists>e. scan_cell (wavefunction m) c s = Inl e"
    by blast
  from for_each_raises[OF this, of "(None, (0, 0), r)"]
  show "\<exists>e. min_entropy_co_ords m r = Inl e"
    by (auto simp: min_entropy_co_ords_def)
next
  assume a: "\<forall>c \<in> set (grid_co_ords (output_size m)). \<exists>options.
      get (wavefunction m) c = Inr options \<and>
      (fcard options = 1 \<or> entropy_defined (wavefunction m) options)"
  have "\<exists>s'. for_each (scan_cell (wavefunction m)) (grid_co_ords (output_size m))
               (None, (0, 0), r) = Inr s'"
  proof (rule for_each_returns)
    fix x s
    assume "x \<in> set (grid_co_ords (output_size m))"
    with a obtain options where "get (wavefunction m) x = Inr options"
      "fcard options = 1 \<or> entropy_defined (wavefunction m) options" by blast
    then show "\<exists>s'. scan_cell (wavefunction m) x s = Inr s'" by (rule scan_cell_returns)
  qed
  then show "\<exists>co r''. min_entropy_co_ords m r = Inr (co, r'')"
    by (auto simp: min_entropy_co_ords_def)
next
  assume "\<forall>c \<in> set (grid_co_ords (output_size m)). \<exists>options.
      get (wavefunction m) c = Inr options \<and> fcard options = 1"
  from for_each_all_collapsed[OF this, of "(None, (0, 0), r)"]
  show "min_entropy_co_ords m r = Inr ((0, 0), r)"
    by (simp add: min_entropy_co_ords_def)
qed

theorem min_entropy_co_ords_result_witness:
  "min_entropy_co_ords xy_model (constant_draws 0)
     = Inr ((0, 0), advance (advance (constant_draws 0))) \<and>
   (0, 0) \<in> set (grid_co_ords (output_size xy_model)) \<and>
   get (wavefunction xy_model) (0, 0) = Inr {|''X'', ''Y''|} \<and>
   fcard {|''X'', ''Y''|} \<noteq> 1 \<and>
   (\<exists>options. get (wavefunction xy_model) (0, 0) = Inr options \<and> 2 \<le> fcard options) \<and>
   grid_co_ords (output_size xy_model) = [(0, 0), (0, 1)] \<and>
   get (wavefunction xy_model) (0, 1) = Inr {|''X'', ''Y''|} \<and>
   {|''X'', ''Y''|} \<noteq> ({||} :: Coefficients) \<and>
   map_of (weights (wavefunction xy_model)) ''X'' = Some 1 \<and>
   map_of (weights (wavefunction xy_model)) ''Y'' = Some 1 \<and>
   double_range 1 \<and> double_range (1 + 1) \<and>
   (\<exists>co r''. min_entropy_co_ords xy_model (constant_draws 0) = Inr (co, r'')) \<and>
   (0, 0) \<in> set (grid_co_ords (output_size (xy_model\<lparr>wavefunction := xy_cells {||} {|''X'', ''Y''|}\<rparr>))) \<and>
   get (wavefunction (xy_model\<lparr>wavefunction := xy_cells {||} {|''X'', ''Y''|}\<rparr>)) (0, 0) = Inr {||} \<and>
   (\<exists>e. min_entropy_co_ords (xy_model\<lparr>wavefunction := xy_cells {||} {|''X'', ''Y''|}\<rparr>)
          (constant_draws 0) = Inl e) \<and>
   grid_co_ords (output_size (xy_model\<lparr>wavefunction := xy_cells {|''X''|} {|''Y''|}\<rparr>))
     = [(0, 0), (0, 1)] \<and>
   get (wavefunction (xy_model\<lparr>wavefunction := xy_cells {|''X''|} {|''Y''|}\<rparr>)) (0, 0)
     = Inr {|''X''|} \<and>
   get (wavefunction (xy_model\<lparr>wavefunction := xy_cells {|''X''|} {|''Y''|}\<rparr>)) (0, 1)
     = Inr {|''Y''|} \<and>
   fcard {|''X''|} = 1 \<and> fcard {|''Y''|} = 1 \<and>
   min_entropy_co_ords (xy_model\<lparr>wavefunction := xy_cells {|''X''|} {|''Y''|}\<rparr>) (constant_draws 1)
     = Inr ((0, 0), constant_draws 1)"
proof -
  let ?e = "xy_model\<lparr>wavefunction := xy_cells {||} {|''X'', ''Y''|}\<rparr>"
  let ?c = "xy_model\<lparr>wavefunction := xy_cells {|''X''|} {|''Y''|}\<rparr>"
  have m: "min_entropy_co_ords xy_model (constant_draws 0)
             = Inr ((0, 0), advance (advance (constant_draws 0)))"
    by (simp add: xy_min_entropy constant_draws_def)
  have g: "(0, 0) \<in> set (grid_co_ords (output_size xy_model))"
    "get (wavefunction xy_model) (0, 0) = Inr {|''X'', ''Y''|}"
    "fcard {|''X'', ''Y''|} \<noteq> 1"
    by (simp_all add: xy_model_eq grid_2_1 xy_get fset_eval)
  from g have some: "\<exists>c \<in> set (grid_co_ords (output_size xy_model)). \<forall>options.
      get (wavefunction xy_model) c = Inr options \<longrightarrow> fcard options \<noteq> 1"
    by (intro bexI[of _ "(0, 0)"]) simp_all
  from min_entropy_co_ords_result[of xy_model "constant_draws 0" "(0, 0)"
         "advance (advance (constant_draws 0))"] m some
  have two: "\<exists>options. get (wavefunction xy_model) (0, 0) = Inr options \<and> 2 \<le> fcard options"
    by blast
  have d: "grid_co_ords (output_size xy_model) = [(0, 0), (0, 1)]"
    "get (wavefunction xy_model) (0, 1) = Inr {|''X'', ''Y''|}"
    "{|''X'', ''Y''|} \<noteq> ({||} :: Coefficients)"
    "map_of (weights (wavefunction xy_model)) ''X'' = Some 1"
    "map_of (weights (wavefunction xy_model)) ''Y'' = Some 1"
    "double_range 1" "double_range (1 + 1)"
    by (simp_all add: xy_model_eq grid_2_1 xy_get double_range_def)
       (simp_all add: xy_cells_def xy_weights_def)
  from d(3-7) have "entropy_defined (wavefunction xy_model) {|''X'', ''Y''|}"
    by (simp add: entropy_defined_def)
  with d(1,2) g(2) have "\<forall>c \<in> set (grid_co_ords (output_size xy_model)). \<exists>options.
      get (wavefunction xy_model) c = Inr options \<and>
      (fcard options = 1 \<or> entropy_defined (wavefunction xy_model) options)"
    by simp
  with min_entropy_co_ords_result[of xy_model "constant_draws 0"]
  have returns: "\<exists>co r''. min_entropy_co_ords xy_model (constant_draws 0) = Inr (co, r'')"
    by blast
  have e: "(0, 0) \<in> set (grid_co_ords (output_size ?e))" "get (wavefunction ?e) (0, 0) = Inr {||}"
    by (simp_all add: xy_model_eq grid_2_1 xy_get)
  then have "\<exists>c \<in> set (grid_co_ords (output_size ?e)). get (wavefunction ?e) c = Inr {||}"
    by (intro bexI[of _ "(0, 0)"])
  with min_entropy_co_ords_result[of ?e "constant_draws 0"]
  have raises: "\<exists>e. min_entropy_co_ords ?e (constant_draws 0) = Inl e"
    by blast
  have cells: "grid_co_ords (output_size ?c) = [(0, 0), (0, 1)]"
    "get (wavefunction ?c) (0, 0) = Inr {|''X''|}" "get (wavefunction ?c) (0, 1) = Inr {|''Y''|}"
    "fcard {|''X''|} = 1" "fcard {|''Y''|} = 1"
    by (simp_all add: xy_model_eq grid_2_1 xy_get fset_eval)
  then have "\<forall>c \<in> set (grid_co_ords (output_size ?c)).
      \<exists>options. get (wavefunction ?c) c = Inr options \<and> fcard options = 1"
    by simp
  with min_entropy_co_ords_result[of ?c "constant_draws 1"]
  have origin: "min_entropy_co_ords ?c (constant_draws 1) = Inr ((0, 0), constant_draws 1)"
    by blast
  show ?thesis by (intro conjI) (rule m g two d returns e raises cells origin)+
qed

subsection \<open>C7: \<open>constrain\<close>\<close>

text \<open>
  C7: at a location that denotes a cell, \<open>constrain\<close> removes exactly the given tile
  from that cell when the tile is present, leaving the other cells and the weights as they
  were, and it raises (\<open>KeyError\<close>) if and only if the tile is not in the cell.
\<close>

theorem constrain_removes_tile_or_raises:
  assumes "get wfn co_ords = Inr options"
  shows "(tile |\<in>| options \<longrightarrow>
            (\<exists>wfn'. constrain wfn co_ords tile = Inr wfn' \<and>
               get wfn' co_ords = Inr (options |-| {|tile|}) \<and>
               weights wfn' = weights wfn \<and>
               (\<forall>co'. locate (coefficient_matrix wfn) co' \<noteq> locate (coefficient_matrix wfn) co_ords
                    \<longrightarrow> get wfn' co' = get wfn co'))) \<and>
         (tile |\<notin>| options \<longrightarrow> constrain wfn co_ords tile = Inl KeyError) \<and>
         ((\<exists>e. constrain wfn co_ords tile = Inl e) \<longleftrightarrow> tile |\<notin>| options)"
proof -
  obtain wfn' where s: "set_item wfn co_ords (options |-| {|tile|}) = Inr wfn'"
    using set_item_succeeds[OF assms] by blast
  have present: "constrain wfn co_ords tile = Inr wfn'" if "tile |\<in>| options"
    using that s assms by (simp add: constrain_def)
  have absent: "constrain wfn co_ords tile = Inl KeyError" if "tile |\<notin>| options"
    using that assms by (simp add: constrain_def)
  from present absent s show ?thesis
    by (auto simp: set_item_get_same set_item_weights set_item_get_other)
qed

theorem constrain_removes_tile_or_raises_witness:
  "get \<lparr>coefficient_matrix = [[{|''X'', ''Y''|}]], weights = [(''X'', 1), (''Y'', 1)]\<rparr> (0, 0)
     = Inr {|''X'', ''Y''|} \<and>
   constrain \<lparr>coefficient_matrix = [[{|''X'', ''Y''|}]], weights = [(''X'', 1), (''Y'', 1)]\<rparr>
     (0, 0) ''X''
     = Inr \<lparr>coefficient_matrix = [[{|''Y''|}]], weights = [(''X'', 1), (''Y'', 1)]\<rparr> \<and>
   constrain \<lparr>coefficient_matrix = [[{|''X'', ''Y''|}]], weights = [(''X'', 1), (''Y'', 1)]\<rparr>
     (0, 0) ''Z'' = Inl KeyError"
proof -
  let ?w = "\<lparr>coefficient_matrix = [[{|''X'', ''Y''|}]], weights = [(''X'', 1), (''Y'', 1)]\<rparr>"
  have g: "get ?w (0, 0) = Inr {|''X'', ''Y''|}"
    by (simp add: get_def subscript_def list_index_def)
  have x: "''X'' |\<in>| {|''X'', ''Y''|}" by simp
  have z: "''Z'' |\<notin>| {|''X'', ''Y''|}" by simp
  from constrain_removes_tile_or_raises[OF g, of "''X''"] x
  obtain wfn' where c: "constrain ?w (0, 0) ''X'' = Inr wfn'" by blast
  have "constrain ?w (0, 0) ''X'' =
          Inr \<lparr>coefficient_matrix = [[{|''Y''|}]], weights = [(''X'', 1), (''Y'', 1)]\<rparr>"
    by (simp add: constrain_def get_def set_item_def subscript_def store_def list_index_def)
  moreover from constrain_removes_tile_or_raises[OF g, of "''Z''"] z
  have "constrain ?w (0, 0) ''Z'' = Inl KeyError" by blast
  ultimately show ?thesis using g by simp
qed

subsection \<open>C8: \<open>valid_dirs\<close>\<close>

text \<open>
  C8: from a location inside the grid every direction that \<open>valid_dirs\<close> returns is
  one of the four directions and leads to a location inside the grid, which a matrix of
  the grid's shape reads at its plain, non-negative position: no \<open>IndexError\<close> and no
  wrap-around.  \<open>UP\<close> is returned exactly when the row is not the last one in its
  direction, \<open>DOWN\<close> exactly when the row is not row 0, and likewise \<open>LEFT\<close> and
  \<open>RIGHT\<close> for the columns.
\<close>

theorem valid_dirs_stay_in_grid:
  assumes "in_grid (width, height) (y, x)"
  shows "(\<forall>d \<in> set (valid_dirs (y, x) (width, height)).
            d \<in> set DIRS \<and> in_grid (width, height) (y + fst d, x + snd d) \<and>
            (has_shape (width, height) (coefficient_matrix wfn) \<longrightarrow>
               get wfn (y + fst d, x + snd d)
                 = Inr (coefficient_matrix wfn ! nat (y + fst d) ! nat (x + snd d)))) \<and>
         (UP \<in> set (valid_dirs (y, x) (width, height)) \<longleftrightarrow> y < height - 1) \<and>
         (DOWN \<in> set (valid_dirs (y, x) (width, height)) \<longleftrightarrow> 0 < y) \<and>
         (LEFT \<in> set (valid_dirs (y, x) (width, height)) \<longleftrightarrow> 0 < x) \<and>
         (RIGHT \<in> set (valid_dirs (y, x) (width, height)) \<longleftrightarrow> x < width - 1)"
proof -
  have dirs: "d \<in> set DIRS \<and> in_grid (width, height) (y + fst d, x + snd d)"
    if "d \<in> set (valid_dirs (y, x) (width, height))" for d
    using assms that
    by (auto simp: valid_dirs_def in_grid_def DIRS_def UP_def DOWN_def LEFT_def RIGHT_def
             split: if_splits)
  have read: "get wfn (y + fst d, x + snd d)
                = Inr (coefficient_matrix wfn ! nat (y + fst d) ! nat (x + snd d))"
    if "d \<in> set (valid_dirs (y, x) (width, height))"
      "has_shape (width, height) (coefficient_matrix wfn)" for d
    using get_in_grid[OF that(2), of "(y + fst d, x + snd d)"] dirs[OF that(1)]
    by (simp add: cell_def)
  have which: "(UP \<in> set (valid_dirs (y, x) (width, height)) \<longleftrightarrow> y < height - 1) \<and>
         (DOWN \<in> set (valid_dirs (y, x) (width, height)) \<longleftrightarrow> 0 < y) \<and>
         (LEFT \<in> set (valid_dirs (y, x) (width, height)) \<longleftrightarrow> 0 < x) \<and>
         (RIGHT \<in> set (valid_dirs (y, x) (width, height)) \<longleftrightarrow> x < width - 1)"
    by (auto simp: valid_dirs_def UP_def DOWN_def LEFT_def RIGHT_def)
  from dirs read which show ?thesis by blast
qed

theorem valid_dirs_stay_in_grid_witness:
  "in_grid (2, 1) (0, 0) \<and> valid_dirs (0, 0) (2, 1) = [RIGHT] \<and>
   in_grid (2, 1) (0 + fst RIGHT, 0 + snd RIGHT) \<and>
   has_shape (2, 1) (coefficient_matrix (xy_cells {|''X''|} {|''Y''|})) \<and>
   get (xy_cells {|''X''|} {|''Y''|}) (0 + fst RIGHT, 0 + snd RIGHT) = Inr {|''Y''|} \<and>
   UP \<notin> set (valid_dirs (0, 0) (2, 1))"
proof -
  have c: "in_grid (2, 1) (0, 0)" by (simp add: in_grid_def)
  have sh: "has_shape (2, 1) (coefficient_matrix (xy_cells {|''X''|} {|''Y''|}))"
    by (simp add: has_shape_def xy_cells_def)
  have r: "RIGHT \<in> set (valid_dirs (0, 0) (2, 1))" by (simp add: xy_dirs)
  note t = valid_dirs_stay_in_grid[OF c, of "xy_cells {|''X''|} {|''Y''|}"]
  from t r sh have
    "in_grid (2, 1) (0 + fst RIGHT, 0 + snd RIGHT)"
    "get (xy_cells {|''X''|} {|''Y''|}) (0 + fst RIGHT, 0 + snd RIGHT)
       = Inr (coefficient_matrix (xy_cells {|''X''|} {|''Y''|})
                ! nat (0 + fst RIGHT) ! nat (0 + snd RIGHT))"
    by blast+
  moreover from t have "UP \<notin> set (valid_dirs (0, 0) (2, 1))" by simp
  ultimately show ?thesis using c sh
    by (simp add: xy_dirs xy_cells_def RIGHT_def)
qed

subsection \<open>C9: the scenario of one row of two cells\<close>

text \<open>
  The scenario: a grid of one row and two columns, the relation
  \<open>{(X, Y, RIGHT), (Y, X, LEFT)}\<close>, the weights \<open>{X: 1, Y: 1}\<close>.  When every draw is
  \<open>3/4\<close> the left cell is collapsed to \<open>Y\<close>, propagation empties both cells, and
  \<open>run\<close> returns no grid: the assertion of \<open>get_collapsed\<close> fails.
\<close>

theorem run_scenario_counterexample:
  "run 2 xy_model (constant_draws (3 / 4)) = Some (Inl AssertionError)"
proof -
  have "run (Suc (Suc 0)) xy_model (constant_draws (3 / 4)) = Some (Inl AssertionError)"
    by (simp add: xy_run constant_draws_def)
  then show ?thesis by (simp add: numeral_2_eq_2)
qed

text \<open>
  C9, amended: in the scenario, for every sequence of draws, \<open>run\<close> either raises
  \<open>AssertionError\<close> or returns the grid whose cells hold \<open>X\<close> and \<open>Y\<close> in this
  order; it returns no other grid.
\<close>

theorem run_scenario:
  assumes "0 < fuel"
  shows "run fuel xy_model r = Some (Inl AssertionError) \<or>
         run fuel xy_model r = Some (Inr [[''X'', ''Y'']])"
proof -
  from assms obtain k where "fuel = Suc k" by (cases fuel) auto
  then show ?thesis by (simp add: xy_run)
qed

theorem run_scenario_witness:
  "(0 :: nat) < 2 \<and> run 2 xy_model (constant_draws 0) = Some (Inr [[''X'', ''Y'']])"
proof -
  have "run (Suc (Suc 0)) xy_model (constant_draws 0) \<noteq> Some (Inl AssertionError)"
    by (simp add: xy_run constant_draws_def)
  then have "run 2 xy_model (constant_draws 0) \<noteq> Some (Inl AssertionError)"
    by (simp add: numeral_2_eq_2)
  with run_scenario[of 2 "constant_draws 0"] show ?thesis by simp
qed

subsection \<open>C10: cells hold tiles of the weights only\<close>

text \<open>
  C10: \<open>mk\<close> sets every cell to the set of keys of the weights; \<open>collapse\<close> and
  \<open>constrain\<close> keep every cell inside that set, and so does every sequence of such
  calls from the wavefunction that \<open>mk\<close> builds.  While the cells are inside that set,
  \<open>shannon_entropy\<close> never raises \<open>KeyError\<close>, and the list of (tile, weight) pairs
  that \<open>collapse\<close> filters holds every tile of the cell.
\<close>

theorem cells_within_weights:
  "list_all (list_all (\<lambda>sq. sq = fset_of_list (map fst ws))) (coefficient_matrix (mk sz ws)) \<and>
   within_universe (mk sz ws) \<and>
   (within_universe wfn \<longrightarrow> collapse wfn co_ords u = Inr wfn1 \<longrightarrow> within_universe wfn1) \<and>
   (within_universe wfn \<longrightarrow> constrain wfn co_ords tile = Inr wfn2 \<longrightarrow> within_universe wfn2) \<and>
   (ops_reach (mk sz ws) wfn3 \<longrightarrow> within_universe wfn3) \<and>
   (within_universe wfn \<longrightarrow> shannon_entropy wfn co_ords \<noteq> Inl KeyError) \<and>
   (within_universe wfn \<longrightarrow> get wfn co_ords = Inr options \<longrightarrow>
      fset_of_list (map fst (filter (\<lambda>(tile, weight). tile |\<in>| options) (weights wfn)))
        = options)"
proof -
  have init: "list_all (list_all (\<lambda>sq. sq = fset_of_list (map fst ws)))
                (coefficient_matrix (mk sz ws))"
    by (simp add: mk_def init_coefficient_matrix_def list_all_iff)
  have col: "within_universe wfn1"
    if "within_universe wfn" "collapse wfn co_ords u = Inr wfn1"
  proof -
    from that(2) have "weights wfn1 = weights wfn"
      by (elim collapse_Inr) (rule set_item_weights)
    with that(1) collapse_shrinks[OF that(2)] show ?thesis by (rule within_universe_shrinks)
  qed
  have con: "within_universe wfn2"
    if "within_universe wfn" "constrain wfn co_ords tile = Inr wfn2"
  proof -
    from that(2) have "weights wfn2 = weights wfn"
      by (auto simp: constrain_def split: sum.splits if_splits dest: set_item_weights)
    with that(1) constrain_shrinks[OF that(2)] show ?thesis by (rule within_universe_shrinks)
  qed
  have reach: "within_universe wfn3" if "ops_reach (mk sz ws) wfn3"
    using mk_within_universe ops_reach_shrinks[OF that] ops_reach_weights[OF that]
    by (rule within_universe_shrinks)
  have ent: "shannon_entropy wfn co_ords \<noteq> Inl KeyError" if wu: "within_universe wfn"
  proof (cases "get wfn co_ords")
    case (Inl e)
    then have "e = IndexError" by (auto simp: get_locate split: option.splits)
    with Inl show ?thesis by (simp add: shannon_entropy_def)
  next
    case (Inr options)
    have "option \<in> fst ` set (weights wfn)" if "option |\<in>| options" for option
    proof -
      from within_universe_get[OF wu Inr] that
      have "option |\<in>| fset_of_list (map fst (weights wfn))" by blast
      then have "option \<in> set (map fst (weights wfn))" by (simp only: fset_of_list.rep_eq)
      then show ?thesis by simp
    qed
    then have "\<not> (\<exists>option |\<in>| options. map_of (weights wfn) option = None)"
      by (auto simp: map_of_eq_None_iff)
    with Inr show ?thesis by (auto simp: shannon_entropy_def Let_def)
  qed
  have flt: "fset_of_list (map fst (filter (\<lambda>(tile, weight). tile |\<in>| options) (weights wfn)))
               = options"
    if "within_universe wfn" "get wfn co_ords = Inr options"
    using within_universe_get[OF that] by (rule filtered_covers)
  from init mk_within_universe col con reach ent flt show ?thesis by blast
qed

theorem cells_within_weights_witness:
  "within_universe (xy_cells {|''X'', ''Y''|} {|''X'', ''Y''|}) \<and>
   collapse (xy_cells {|''X'', ''Y''|} {|''X'', ''Y''|}) (0, 0) 0
     = Inr (xy_cells {|''X''|} {|''X'', ''Y''|}) \<and>
   within_universe (xy_cells {|''X''|} {|''X'', ''Y''|}) \<and>
   constrain (xy_cells {|''X'', ''Y''|} {|''X'', ''Y''|}) (0, 1) ''X''
     = Inr (xy_cells {|''X'', ''Y''|} {|''Y''|}) \<and>
   within_universe (xy_cells {|''X'', ''Y''|} {|''Y''|}) \<and>
   shannon_entropy (xy_cells {|''X'', ''Y''|} {|''X'', ''Y''|}) (0, 0) \<noteq> Inl KeyError"
proof -
  let ?w = "xy_cells {|''X'', ''Y''|} {|''X'', ''Y''|}"
  have mk: "mk (2, 1) xy_weights = ?w"
    by (simp add: mk_def init_coefficient_matrix_def xy_cells_def xy_weights_def numeral_2_eq_2)
  have c1: "collapse ?w (0, 0) 0 = Inr (xy_cells {|''X''|} {|''X'', ''Y''|})"
    by (simp add: xy_collapse)
  have c2: "constrain ?w (0, 1) ''X'' = Inr (xy_cells {|''X'', ''Y''|} {|''Y''|})"
    by (simp add: constrain_def xy_get xy_set_item)
  note t = cells_within_weights[of xy_weights "(2, 1)" ?w "(0, 0)" 0 _ _ _ ?w, unfolded mk]
  from t have w0: "within_universe ?w" by blast
  from cells_within_weights[of xy_weights "(2, 1)" ?w "(0, 0)" 0
         "xy_cells {|''X''|} {|''X'', ''Y''|}"] w0 c1
  have w1: "within_universe (xy_cells {|''X''|} {|''X'', ''Y''|})" by blast
  from cells_within_weights[of xy_weights "(2, 1)" ?w "(0, 1)" 0 _ "''X''"
         "xy_cells {|''X'', ''Y''|} {|''Y''|}"] w0 c2
  have w2: "within_universe (xy_cells {|''X'', ''Y''|} {|''Y''|})" by blast
  from cells_within_weights[of xy_weights "(2, 1)" ?w "(0, 0)"] w0
  have e: "shannon_entropy ?w (0, 0) \<noteq> Inl KeyError" by blast
  from w0 c1 w1 c2 w2 e show ?thesis by simp
qed

end
